theory Spec2Isabelle
  imports Complex_Main "HOL-Library.Sublist"
begin

section \<open>Text: Python strings as lists of code points\<close>

text \<open>
  A Python \<open>str\<close> is a sequence of Unicode code points; a code point is a natural number.
  The literals of the scripts are Cyrillic, so they are written as code point lists, with
  the ASCII parts through \<open>asc\<close>.
\<close>

type_synonym ustring = "nat list"

definition asc :: "string \<Rightarrow> ustring" where
  "asc s = map of_char s"

text \<open>\<open>str.isspace\<close> of one code point; the same table decides \<open>\s\<close> in \<open>re\<close>.\<close>

definition py_isspace :: "nat \<Rightarrow> bool" where
  "py_isspace c \<longleftrightarrow>
     (9 \<le> c \<and> c \<le> 13) \<or> (28 \<le> c \<and> c \<le> 32) \<or> c = 133 \<or> c = 160 \<or> c = 5760 \<or>
     (8192 \<le> c \<and> c \<le> 8202) \<or> c = 8232 \<or> c = 8233 \<or> c = 8239 \<or> c = 8287 \<or> c = 12288"

definition py_strip :: "ustring \<Rightarrow> ustring" where
  "py_strip s = rev (dropWhile py_isspace (rev (dropWhile py_isspace s)))"

text \<open>\<open>s.split(sep)\<close> for a separator of one character: never an empty list.\<close>

fun py_split :: "nat \<Rightarrow> ustring \<Rightarrow> ustring list" where
  "py_split sep [] = [[]]"
| "py_split sep (c # cs) =
     (if c = sep then [] # py_split sep cs
      else (case py_split sep cs of
              [] \<Rightarrow> [[c]]
            | w # ws \<Rightarrow> (c # w) # ws))"

definition startswith :: "ustring \<Rightarrow> ustring \<Rightarrow> bool" where
  "startswith s p \<longleftrightarrow> take (length p) s = p"

text \<open>\<open>p in s\<close> for strings: \<open>p\<close> occurs in \<open>s\<close> as a contiguous block.\<close>

fun py_in :: "ustring \<Rightarrow> ustring \<Rightarrow> bool" where
  "py_in p [] \<longleftrightarrow> p = []"
| "py_in p (c # cs) \<longleftrightarrow> startswith (c # cs) p \<or> py_in p cs"

text \<open>
  The tables of the Unicode character database that the scripts reach through \<open>str.lower\<close>
  and the classes \<open>\w\<close>, \<open>\d\<close> and the flag \<open>re.IGNORECASE\<close>. They are not part of the
  repository, so every function that needs them takes them as a parameter:
  \<^item> \<open>lower_cp\<close>: the lowercase mapping of one code point (\<open>str.lower\<close> is applied
    code point by code point; Python differs only at U+0130 and at a final capital sigma);
  \<^item> \<open>ci_eq p c\<close>: under \<open>re.IGNORECASE\<close> the pattern character \<open>p\<close> matches the text
    character \<open>c\<close>;
  \<^item> \<open>is_word\<close>: the class \<open>\w\<close>;
  \<^item> \<open>decimal\<close>: the value of a decimal digit, \<open>None\<close> outside the class \<open>\d\<close>.
\<close>

record ucd =
  lower_cp :: "nat \<Rightarrow> nat"
  ci_eq :: "nat \<Rightarrow> nat \<Rightarrow> bool"
  is_word :: "nat \<Rightarrow> bool"
  decimal :: "nat \<Rightarrow> nat option"

definition py_lower :: "ucd \<Rightarrow> ustring \<Rightarrow> ustring" where
  "py_lower U s = map (lower_cp U) s"

definition is_digit :: "ucd \<Rightarrow> nat \<Rightarrow> bool" where
  "is_digit U c \<longleftrightarrow> decimal U c \<noteq> None"

text \<open>\<open>str(n)\<close> for an integer, as an f-string renders it.\<close>

fun digits_of :: "nat \<Rightarrow> ustring" where
  "digits_of n = (if n < 10 then [48 + n] else digits_of (n div 10) @ [48 + n mod 10])"

declare digits_of.simps [simp del]

definition py_str :: "int \<Rightarrow> ustring" where
  "py_str i = (if i < 0 then 45 # digits_of (nat (- i)) else digits_of (nat i))"

text \<open>
  \<open>int(s)\<close> on a capture of \<open>\d+\<close>. The value is the decimal value of the digits, leading
  zeros allowed. Python refuses a text of more than 4300 digits (the default of
  \<open>sys.set_int_max_str_digits\<close>, leading zeros counted) with a \<open>ValueError\<close>; the result is
  then \<open>Inl\<close> of the message \<open>str(e)\<close>.
\<close>

definition digits_value :: "ucd \<Rightarrow> ustring \<Rightarrow> nat" where
  "digits_value U s =
     foldl (\<lambda>acc c. 10 * acc + (case decimal U c of None \<Rightarrow> 0 | Some d \<Rightarrow> d)) 0 s"

definition max_str_digits :: nat where
  "max_str_digits = 4300"

definition int_limit_message :: "nat \<Rightarrow> ustring" where
  "int_limit_message n =
     asc ''Exceeds the limit (4300 digits) for integer string conversion: value has '' @
     digits_of n @
     asc '' digits; use sys.set_int_max_str_digits() to increase the limit''"

definition py_int :: "ucd \<Rightarrow> ustring \<Rightarrow> ustring + int" where
  "py_int U s =
     (if length s > max_str_digits then Inl (int_limit_message (length s))
      else Inr (int (digits_value U s)))"

text \<open>The exceptions that the scripts meet; a \<open>ValueError\<close> carries its message.\<close>

datatype py_error = FileNotFoundError | OSError | TypeError | ValueError ustring

text \<open>
  The tables restricted to Basic Latin and the Cyrillic block, for evaluating the scripts
  on concrete documents written in these two alphabets.
\<close>

definition basic_lower :: "nat \<Rightarrow> nat" where
  "basic_lower c =
     (if 65 \<le> c \<and> c \<le> 90 then c + 32
      else if 1040 \<le> c \<and> c \<le> 1071 then c + 32
      else if 1024 \<le> c \<and> c \<le> 1039 then c + 80
      else c)"

definition basic_word :: "nat \<Rightarrow> bool" where
  "basic_word c \<longleftrightarrow>
     (48 \<le> c \<and> c \<le> 57) \<or> (65 \<le> c \<and> c \<le> 90) \<or> c = 95 \<or> (97 \<le> c \<and> c \<le> 122) \<or>
     (1024 \<le> c \<and> c \<le> 1119)"

definition basic_decimal :: "nat \<Rightarrow> nat option" where
  "basic_decimal c = (if 48 \<le> c \<and> c \<le> 57 then Some (c - 48) else None)"

definition basic_ucd :: ucd where
  "basic_ucd =
     \<lparr>lower_cp = basic_lower,
      ci_eq = (\<lambda>p c. basic_lower c = basic_lower p),
      is_word = basic_word,
      decimal = basic_decimal\<rparr>"

section \<open>Regular expressions as \<open>re\<close> matches them\<close>

text \<open>
  The scripts extract every field with \<open>re.search\<close>, \<open>re.findall\<close>, \<open>re.finditer\<close> and
  \<open>re.sub\<close>. The patterns are kept as syntax trees and matched the way \<open>re\<close> does:
  backtracking, leftmost start first, the first alternative first, a greedy repetition
  longest first and a lazy one shortest first. The matcher is written with a continuation
  that receives the rest of the text and the groups captured so far, and answers with the
  first success. \<open>Eos\<close> is \<open>$\<close> without \<open>re.MULTILINE\<close>: the end of the text, or the place
  before a newline that ends the text. In \<open>Rep a lo hi greedy\<close> the bound \<open>None\<close> stands
  for no upper bound; every repeated pattern of the scripts consumes at least a character,
  so that the length of the text bounds the number of rounds.
\<close>

type_synonym groups = "nat \<Rightarrow> ustring option"

datatype regex =
    Cls "nat \<Rightarrow> bool"
  | Eps
  | Eos
  | Seq regex regex
  | Alt regex regex
  | Grp nat regex
  | Rep regex nat "nat option" bool

primrec rep_greedy ::
  "(ustring \<Rightarrow> groups \<Rightarrow> (ustring \<Rightarrow> groups \<Rightarrow> 'a option) \<Rightarrow> 'a option) \<Rightarrow> nat \<Rightarrow> nat \<Rightarrow>
     ustring \<Rightarrow> groups \<Rightarrow> (ustring \<Rightarrow> groups \<Rightarrow> 'a option) \<Rightarrow> 'a option" where
  "rep_greedy m 0 lo s g k = (if lo = 0 then k s g else None)"
| "rep_greedy m (Suc n) lo s g k =
     (case m s g (\<lambda>s' g'. rep_greedy m n (lo - 1) s' g' k) of
        Some r \<Rightarrow> Some r
      | None \<Rightarrow> if lo = 0 then k s g else None)"

primrec rep_lazy ::
  "(ustring \<Rightarrow> groups \<Rightarrow> (ustring \<Rightarrow> groups \<Rightarrow> 'a option) \<Rightarrow> 'a option) \<Rightarrow> nat \<Rightarrow> nat \<Rightarrow>
     ustring \<Rightarrow> groups \<Rightarrow> (ustring \<Rightarrow> groups \<Rightarrow> 'a option) \<Rightarrow> 'a option" where
  "rep_lazy m 0 lo s g k = (if lo = 0 then k s g else None)"
| "rep_lazy m (Suc n) lo s g k =
     (if lo = 0 then
        (case k s g of
           Some r \<Rightarrow> Some r
         | None \<Rightarrow> m s g (\<lambda>s' g'. rep_lazy m n 0 s' g' k))
      else m s g (\<lambda>s' g'. rep_lazy m n (lo - 1) s' g' k))"

primrec rmatch ::
  "regex \<Rightarrow> ustring \<Rightarrow> groups \<Rightarrow> (ustring \<Rightarrow> groups \<Rightarrow> 'a option) \<Rightarrow> 'a option" where
  "rmatch (Cls P) s g k = (case s of [] \<Rightarrow> None | c # cs \<Rightarrow> if P c then k cs g else None)"
| "rmatch Eps s g k = k s g"
| "rmatch Eos s g k = (if s = [] \<or> s = [10] then k s g else None)"
| "rmatch (Seq a b) s g k = rmatch a s g (\<lambda>s' g'. rmatch b s' g' k)"
| "rmatch (Alt a b) s g k =
     (case rmatch a s g k of Some r \<Rightarrow> Some r | None \<Rightarrow> rmatch b s g k)"
| "rmatch (Grp n a) s g k =
     rmatch a s g (\<lambda>s' g'. k s' (g'(n \<mapsto> take (length s - length s') s)))"
| "rmatch (Rep a lo hi greedy) s g k =
     (let n = (case hi of Some h \<Rightarrow> h | None \<Rightarrow> lo + length s)
      in if greedy then rep_greedy (rmatch a) n lo s g k
         else rep_lazy (rmatch a) n lo s g k)"

text \<open>Pattern syntax: a literal character, a literal text, \<open>.\<close>, \<open>\s\<close>, \<open>\d\<close>, \<open>\w\<close>.\<close>

definition Chr :: "nat \<Rightarrow> regex" where
  "Chr c = Cls (\<lambda>x. x = c)"

definition lit :: "ustring \<Rightarrow> regex" where
  "lit w = foldr (\<lambda>c r. Seq (Chr c) r) w Eps"

definition lit_ci :: "ucd \<Rightarrow> ustring \<Rightarrow> regex" where
  "lit_ci U w = foldr (\<lambda>p r. Seq (Cls (ci_eq U p)) r) w Eps"

definition Dot :: regex where
  "Dot = Cls (\<lambda>x. x \<noteq> 10)"

definition DotAll :: regex where
  "DotAll = Cls (\<lambda>x. True)"

definition Space :: regex where
  "Space = Cls py_isspace"

definition Digit :: "ucd \<Rightarrow> regex" where
  "Digit U = Cls (is_digit U)"

definition Word :: "ucd \<Rightarrow> regex" where
  "Word U = Cls (is_word U)"

definition seqs :: "regex list \<Rightarrow> regex" where
  "seqs rs = foldr Seq rs Eps"

text \<open>
  A match object: the text before the match, the matched text (\<open>group(0)\<close>), the text after
  it, and the captured groups.
\<close>

record re_match =
  m_before :: ustring
  m_text :: ustring
  m_after :: ustring
  m_group :: groups

definition match_here :: "regex \<Rightarrow> ustring \<Rightarrow> (ustring \<times> groups) option" where
  "match_here r s = rmatch r s (\<lambda>n. None) (\<lambda>s' g. Some (s', g))"

fun search_from :: "regex \<Rightarrow> ustring \<Rightarrow> ustring \<Rightarrow> re_match option" where
  "search_from r pre s =
     (case match_here r s of
        Some (s', g) \<Rightarrow>
          Some \<lparr>m_before = pre, m_text = take (length s - length s') s, m_after = s', m_group = g\<rparr>
      | None \<Rightarrow> (case s of [] \<Rightarrow> None | c # cs \<Rightarrow> search_from r (pre @ [c]) cs))"

declare search_from.simps [simp del]

definition re_search :: "regex \<Rightarrow> ustring \<Rightarrow> re_match option" where
  "re_search r s = search_from r [] s"

text \<open>
  The matcher hands to its continuation a suffix of the text only, so a match splits the
  text into what stands before it, the match and the rest; \<open>re.finditer\<close> and \<open>re.sub\<close>
  go on in the rest, and therefore end.
\<close>

lemma rep_greedy_suffix:
  assumes m: "\<And>s g k x. m s g k = Some (x::'a) \<Longrightarrow> \<exists>s' g'. suffix s' s \<and> k s' g' = Some x"
  shows "rep_greedy m n lo s g k = Some (x::'a) \<Longrightarrow> \<exists>s' g'. suffix s' s \<and> k s' g' = Some x"
proof (induction n arbitrary: lo s g)
  case 0
  then show ?case by (auto split: if_splits)
next
  case (Suc n)
  show ?case
  proof (cases "m s g (\<lambda>s' g'. rep_greedy m n (lo - 1) s' g' k)")
    case None
    with Suc.prems show ?thesis by (auto split: if_splits)
  next
    case (Some r)
    with Suc.prems have "r = x" by simp
    with Some obtain s1 g1 where s1: "suffix s1 s" "rep_greedy m n (lo - 1) s1 g1 k = Some x"
      using m by blast
    from Suc.IH[OF s1(2)] obtain s2 g2 where "suffix s2 s1" "k s2 g2 = Some x" by blast
    with s1(1) show ?thesis using suffix_order.trans by blast
  qed
qed

lemma rep_lazy_suffix:
  assumes m: "\<And>s g k x. m s g k = Some (x::'a) \<Longrightarrow> \<exists>s' g'. suffix s' s \<and> k s' g' = Some x"
  shows "rep_lazy m n lo s g k = Some (x::'a) \<Longrightarrow> \<exists>s' g'. suffix s' s \<and> k s' g' = Some x"
proof (induction n arbitrary: lo s g)
  case 0
  then show ?case by (auto split: if_splits)
next
  case (Suc n)
  have step: "\<exists>s' g'. suffix s' s \<and> k s' g' = Some x"
    if "m s g (\<lambda>s' g'. rep_lazy m n l s' g' k) = Some x" for l
  proof -
    from m[OF that] obtain s1 g1 where s1: "suffix s1 s" "rep_lazy m n l s1 g1 k = Some x"
      by blast
    from Suc.IH[OF s1(2)] obtain s2 g2 where "suffix s2 s1" "k s2 g2 = Some x" by blast
    with s1(1) show ?thesis using suffix_order.trans by blast
  qed
  show ?case
  proof (cases "lo = 0")
    case True
    show ?thesis
    proof (cases "k s g")
      case None
      with True Suc.prems have "m s g (\<lambda>s' g'. rep_lazy m n 0 s' g' k) = Some x" by simp
      then show ?thesis by (rule step)
    next
      case (Some r)
      with True Suc.prems have "k s g = Some x" by simp
      then show ?thesis by blast
    qed
  next
    case False
    with Suc.prems have "m s g (\<lambda>s' g'. rep_lazy m n (lo - 1) s' g' k) = Some x" by simp
    then show ?thesis by (rule step)
  qed
qed

lemma rmatch_suffix:
  "rmatch r s g k = Some (x::'a) \<Longrightarrow> \<exists>s' g'. suffix s' s \<and> k s' g' = Some x"
proof (induction r arbitrary: s g k x)
  case (Cls P)
  then show ?case by (auto split: list.splits if_splits intro: suffix_ConsI)
next
  case Eps
  then show ?case by auto
next
  case Eos
  then show ?case by (auto split: if_splits)
next
  case (Seq a b)
  from Seq.prems have "rmatch a s g (\<lambda>s' g'. rmatch b s' g' k) = Some x" by simp
  from Seq.IH(1)[OF this] obtain s1 g1 where s1: "suffix s1 s" "rmatch b s1 g1 k = Some x"
    by blast
  from Seq.IH(2)[OF s1(2)] obtain s2 g2 where "suffix s2 s1" "k s2 g2 = Some x" by blast
  with s1(1) show ?case using suffix_order.trans by blast
next
  case (Alt a b)
  then show ?case by (auto split: option.splits)
next
  case (Grp n a)
  from Grp.prems have "rmatch a s g (\<lambda>s' g'. k s' (g'(n \<mapsto> take (length s - length s') s))) = Some x"
    by simp
  from Grp.IH[OF this] show ?case by blast
next
  case (Rep a lo hi greedy)
  have m: "\<And>s g k x. rmatch a s g k = Some (x::'a) \<Longrightarrow> \<exists>s' g'. suffix s' s \<and> k s' g' = Some x"
    using Rep.IH by blast
  show ?case
  proof (cases greedy)
    case True
    with Rep.prems obtain n where "rep_greedy (rmatch a) n lo s g k = Some x"
      by (simp add: Let_def)
    from rep_greedy_suffix[where m="rmatch a" and k=k and x=x, OF m this] show ?thesis .
  next
    case False
    with Rep.prems obtain n where "rep_lazy (rmatch a) n lo s g k = Some x"
      by (simp add: Let_def)
    from rep_lazy_suffix[where m="rmatch a" and k=k and x=x, OF m this] show ?thesis .
  qed
qed

lemma match_here_suffix: "match_here r s = Some (s', g) \<Longrightarrow> suffix s' s"
  unfolding match_here_def by (drule rmatch_suffix) auto

lemma search_from_decomp:
  "search_from r pre s = Some m \<Longrightarrow> pre @ s = m_before m @ m_text m @ m_after m"
proof (induction r pre s rule: search_from.induct)
  case (1 r pre s)
  show ?case
  proof (cases "match_here r s")
    case None
    with "1.prems" obtain c cs where s: "s = c # cs" and rec: "search_from r (pre @ [c]) cs = Some m"
      by (subst (asm) search_from.simps) (auto split: list.splits)
    from "1.IH"[OF None s rec] s show ?thesis by simp
  next
    case (Some p)
    obtain s' g where p: "p = (s', g)" by (cases p)
    from match_here_suffix Some p have "suffix s' s" by blast
    then obtain u where u: "s = u @ s'" by (auto simp: suffix_def)
    from "1.prems" Some p have "m = \<lparr>m_before = pre, m_text = take (length s - length s') s, m_after = s', m_group = g\<rparr>"
      by (subst (asm) search_from.simps) simp
    with u show ?thesis by simp
  qed
qed

lemma re_search_decomp: "re_search r s = Some m \<Longrightarrow> s = m_before m @ m_text m @ m_after m"
  unfolding re_search_def by (drule search_from_decomp) simp

function re_finditer :: "regex \<Rightarrow> ustring \<Rightarrow> re_match list" where
  "re_finditer r s =
     (case re_search r s of
        None \<Rightarrow> []
      | Some m \<Rightarrow>
          m # (if m_text m = [] then (case m_after m of [] \<Rightarrow> [] | c # cs \<Rightarrow> re_finditer r cs)
               else re_finditer r (m_after m)))"
  by pat_completeness auto
termination
proof (relation "measure (\<lambda>(r, s). length s)", goal_cases)
  case 1
  then show ?case by simp
next
  case (2 r s m c cs)
  from re_search_decomp[OF 2(1)] 2(3) show ?case by simp
next
  case (3 r s m)
  from re_search_decomp[OF 3(1)] 3(2) show ?case by simp
qed

function re_sub :: "regex \<Rightarrow> (re_match \<Rightarrow> ustring) \<Rightarrow> ustring \<Rightarrow> ustring" where
  "re_sub r repl s =
     (case re_search r s of
        None \<Rightarrow> s
      | Some m \<Rightarrow>
          m_before m @ repl m @
          (if m_text m = [] then (case m_after m of [] \<Rightarrow> [] | c # cs \<Rightarrow> c # re_sub r repl cs)
           else re_sub r repl (m_after m)))"
  by pat_completeness auto
termination
proof (relation "measure (\<lambda>(r, repl, s). length s)", goal_cases)
  case 1
  then show ?case by simp
next
  case (2 r repl s m c cs)
  from re_search_decomp[OF 2(1)] 2(3) show ?case by simp
next
  case (3 r repl s m)
  from re_search_decomp[OF 3(1)] 3(2) show ?case by simp
qed

text \<open>\<open>m.group(n)\<close>, with the empty text for a group that did not take part.\<close>

definition group :: "re_match \<Rightarrow> nat \<Rightarrow> ustring" where
  "group m n = (case m_group m n of None \<Rightarrow> [] | Some t \<Rightarrow> t)"

text \<open>\<open>re.findall\<close> for a pattern without a group, and for a pattern with one group.\<close>

definition re_findall :: "regex \<Rightarrow> ustring \<Rightarrow> ustring list" where
  "re_findall r s = map m_text (re_finditer r s)"

definition re_findall1 :: "regex \<Rightarrow> ustring \<Rightarrow> ustring list" where
  "re_findall1 r s = map (\<lambda>m. group m 1) (re_finditer r s)"

definition Star :: "regex \<Rightarrow> regex" where
  "Star a = Rep a 0 None True"

definition Plus :: "regex \<Rightarrow> regex" where
  "Plus a = Rep a 1 None True"

definition PlusLazy :: "regex \<Rightarrow> regex" where
  "PlusLazy a = Rep a 1 None False"

definition Opt :: "regex \<Rightarrow> regex" where
  "Opt a = Rep a 0 (Some 1) True"

section \<open>Critical events (\<open>analyze_reflection.detect_critical_events\<close>)\<close>

datatype event_type = FORCED_CHANGE | VOLUNTARY_CHANGE

datatype confidence_level = high | medium

record critical_event =
  ev_type :: event_type
  ev_keyword :: ustring
  ev_context :: ustring
  ev_confidence :: confidence_level

text \<open>
  The two lexicons, in the order of the source. The keywords that give confidence \<open>high\<close>
  are avariya, poteryal, uvolili and bolezn (in Cyrillic), a list of its own in the source.
\<close>

definition forced_keywords :: "ustring list" where
  "forced_keywords =
     [[1072, 1074, 1072, 1088, 1080, 1103],
      [1087, 1086, 1090, 1077, 1088, 1103, 1083],
      [1091, 1074, 1086, 1083, 1080, 1083, 1080],
      [1073, 1086, 1083, 1077, 1079, 1085, 1100],
      [1082, 1088, 1080, 1079, 1080, 1089],
      [1085, 1077, 32, 1084, 1086, 1075, 1091],
      [1085, 1077, 1074, 1086, 1079, 1084, 1086, 1078, 1085, 1086],
      [1092, 1086, 1088, 1089, 45, 1084, 1072, 1078, 1086, 1088],
      [1074, 1099, 1085, 1091, 1078, 1076, 1077, 1085],
      [1087, 1088, 1080, 1096, 1083, 1086, 1089, 1100],
      [1086, 1073, 1089, 1090, 1086, 1103, 1090, 1077, 1083, 1100, 1089, 1090, 1074, 1072],
      [1087, 1086, 1090, 1077, 1088, 1103, 32, 1076, 1086, 1093, 1086, 1076, 1072],
      [1087, 1086, 1090, 1077, 1088, 1103, 32, 1088, 1072, 1073, 1086, 1090, 1099],
      [1090, 1088, 1072, 1074, 1084],
      [1075, 1086, 1089, 1087, 1080, 1090, 1072, 1083],
      [1086, 1087, 1077, 1088, 1072, 1094, 1080, 1103]]"

definition voluntary_keywords :: "ustring list" where
  "voluntary_keywords =
     [[1088, 1077, 1096, 1080, 1083, 32, 1080, 1079, 1084, 1077, 1085, 1080, 1090, 1100],
      [1087, 1077, 1088, 1077, 1086, 1089, 1084, 1099, 1089, 1083, 1080, 1083],
      [1087, 1086, 1085, 1103, 1083, 44, 32, 1095, 1090, 1086],
      [1085, 1086, 1074, 1099, 1077, 32, 1087, 1088, 1080, 1086, 1088, 1080, 1090, 1077, 1090, 1099],
      [1073, 1086, 1083, 1100, 1096, 1077, 32, 1085, 1077, 32, 1072, 1082, 1090, 1091, 1072, 1083, 1100, 1085, 1086],
      [1093, 1086, 1095, 1091, 32, 1089, 1092, 1086, 1082, 1091, 1089, 1080, 1088, 1086, 1074, 1072, 1090, 1100, 1089, 1103],
      [1080, 1079, 1084, 1077, 1085, 1080, 1083, 32, 1087, 1088, 1080, 1086, 1088, 1080, 1090, 1077, 1090, 1099]]"

definition high_keywords :: "ustring list" where
  "high_keywords =
     [[1072, 1074, 1072, 1088, 1080, 1103],
      [1087, 1086, 1090, 1077, 1088, 1103, 1083],
      [1091, 1074, 1086, 1083, 1080, 1083, 1080],
      [1073, 1086, 1083, 1077, 1079, 1085, 1100]]"

text \<open>
  The context pattern \<open>.{0,100}keyword.{0,100}\<close> under \<open>re.IGNORECASE | re.DOTALL\<close>. No
  keyword holds a character that is special in a pattern, so a keyword is a literal.
\<close>

definition context_pattern :: "ucd \<Rightarrow> ustring \<Rightarrow> regex" where
  "context_pattern U kw =
     seqs [Rep DotAll 0 (Some 100) True, lit_ci U kw, Rep DotAll 0 (Some 100) True]"

definition detect_keyword ::
  "ucd \<Rightarrow> event_type \<Rightarrow> (ustring \<Rightarrow> confidence_level) \<Rightarrow> ustring \<Rightarrow> ustring \<Rightarrow> critical_event list" where
  "detect_keyword U ty conf content kw =
     (let text_to_check = py_lower U content in
      if re_search (lit_ci U kw) text_to_check \<noteq> None then
        (case re_findall (context_pattern U kw) content of
           [] \<Rightarrow> []
         | m0 # ms \<Rightarrow>
             [\<lparr>ev_type = ty, ev_keyword = kw, ev_context = take 200 m0, ev_confidence = conf kw\<rparr>])
      else [])"

text \<open>The two loops over the lexicons; each round appends at most one event.\<close>

fun detect_loop ::
  "ucd \<Rightarrow> event_type \<Rightarrow> (ustring \<Rightarrow> confidence_level) \<Rightarrow> ustring \<Rightarrow> ustring list \<Rightarrow>
     critical_event list \<Rightarrow> critical_event list" where
  "detect_loop U ty conf content [] acc = acc"
| "detect_loop U ty conf content (kw # kws) acc =
     detect_loop U ty conf content kws (acc @ detect_keyword U ty conf content kw)"

definition detect_critical_events :: "ucd \<Rightarrow> ustring \<Rightarrow> critical_event list" where
  "detect_critical_events U content =
     (let forced = detect_loop U FORCED_CHANGE
                     (\<lambda>kw. if kw \<in> set high_keywords then high else medium)
                     content forced_keywords []
      in detect_loop U VOLUNTARY_CHANGE (\<lambda>kw. medium) content voluntary_keywords forced)"

text \<open>
  What it means that a keyword matches in a text, case-insensitively: \<open>ci_prefix U kw s\<close>
  says that \<open>s\<close> starts with an occurrence of \<open>kw\<close>, and \<open>contains_ci U kw s\<close> that an
  occurrence starts somewhere in \<open>s\<close>. The keyword "avariya" of the first lexicon is
  \<open>avariya\<close>.
\<close>

fun ci_prefix :: "ucd \<Rightarrow> ustring \<Rightarrow> ustring \<Rightarrow> bool" where
  "ci_prefix U [] s \<longleftrightarrow> True"
| "ci_prefix U (p # ps) [] \<longleftrightarrow> False"
| "ci_prefix U (p # ps) (c # cs) \<longleftrightarrow> ci_eq U p c \<and> ci_prefix U ps cs"

fun contains_ci :: "ucd \<Rightarrow> ustring \<Rightarrow> ustring \<Rightarrow> bool" where
  "contains_ci U kw [] \<longleftrightarrow> ci_prefix U kw []"
| "contains_ci U kw (c # cs) \<longleftrightarrow> ci_prefix U kw (c # cs) \<or> contains_ci U kw cs"

definition avariya :: ustring where
  "avariya = [1072, 1074, 1072, 1088, 1080, 1103]"

section \<open>Daily records (\<open>analyze_reflection.parse_reflection_file\<close>)\<close>

text \<open>
  The record holds the keys of the dictionary that the functions below read. The free-text
  keys (obstacles, helpful factors, energy, motivation, focus, insights, plan) are filled
  by further searches that cannot raise, and no function modelled here reads them.
  A key whose field was not found keeps Python's \<open>None\<close>.
\<close>

record reflection_data =
  operations_done :: "ustring list"
  tactics_done :: "ustring list"
  evidence_done :: "ustring list"
  rating :: "int option"
  operations_percent :: "int option"
  tactics_percent :: "int option"
  critical_events :: "critical_event list"

text \<open>
  A checklist block: the header, \<open>\s*\n\<close>, and group 1 \<open>((?:- \[[ x]\] .+\n?)+)\<close>.
  The three headers are "#### Operatsii:", "#### Taktika:" and
  "### Dokazatelstva identichnosti" in Cyrillic.
\<close>

definition checklist_pattern :: "ustring \<Rightarrow> regex" where
  "checklist_pattern header =
     seqs [lit header, Star Space, Chr 10,
           Grp 1 (Plus (seqs [lit (asc ''- [''), Cls (\<lambda>c. c = 32 \<or> c = 120), lit (asc ''] ''),
                              Plus Dot, Opt (Chr 10)]))]"

definition operations_header :: ustring where
  "operations_header = asc ''#### '' @ [1054, 1087, 1077, 1088, 1072, 1094, 1080, 1080, 58]"

definition tactics_header :: ustring where
  "tactics_header = asc ''#### '' @ [1058, 1072, 1082, 1090, 1080, 1082, 1072, 58]"

definition evidence_header :: ustring where
  "evidence_header = asc ''### '' @ [1044, 1086, 1082, 1072, 1079, 1072, 1090, 1077, 1083, 1100, 1089, 1090, 1074, 1072, 32, 1080, 1076, 1077, 1085, 1090, 1080, 1095, 1085, 1086, 1089, 1090, 1080]"

text \<open>\<open>re.sub(r'- \[[xX]\]\s*', '', line).strip()\<close>\<close>

definition checkbox_pattern :: regex where
  "checkbox_pattern =
     seqs [lit (asc ''- [''), Cls (\<lambda>c. c = 120 \<or> c = 88), Chr 93, Star Space]"

definition strip_checkbox :: "ustring \<Rightarrow> ustring" where
  "strip_checkbox line = py_strip (re_sub checkbox_pattern (\<lambda>m. []) line)"

text \<open>
  The loop over the lines of a block. Only the operations loop has the guard that skips a
  line which is not empty and starts with neither \<open>- [ ]\<close> nor \<open>- [x]\<close>.
\<close>

fun done_loop :: "bool \<Rightarrow> ustring list \<Rightarrow> ustring list \<Rightarrow> ustring list" where
  "done_loop guard [] acc = acc"
| "done_loop guard (line # lines) acc =
     (if guard \<and> py_strip line \<noteq> [] \<and> \<not> startswith (py_strip line) (asc ''- [ ]'')
           \<and> \<not> startswith (py_strip line) (asc ''- [x]'')
      then done_loop guard lines acc
      else if py_in (asc ''[x]'') line \<or> py_in (asc ''[X]'') line then
        (let action = strip_checkbox line
         in if action \<noteq> [] then done_loop guard lines (acc @ [action])
            else done_loop guard lines acc)
      else done_loop guard lines acc)"

definition done_items :: "bool \<Rightarrow> ustring \<Rightarrow> ustring \<Rightarrow> ustring list" where
  "done_items guard header content =
     (case re_search (checklist_pattern header) content of
        None \<Rightarrow> []
      | Some m \<Rightarrow> done_loop guard (py_split 10 (py_strip (group m 1))) [])"

text \<open>
  A number field: the bold label, \<open>\s*\[?(\d+)%?\]?\<close> for a percentage and
  \<open>\s*\[?(\d+)\]?\<close> for the rating. The labels are "**Vypolnenie operatsii:**",
  "**Vypolnenie taktiki:**" and "**Obshchaya otsenka:**" in Cyrillic.
\<close>

definition percent_pattern :: "ucd \<Rightarrow> ustring \<Rightarrow> regex" where
  "percent_pattern U label =
     seqs [lit label, Star Space, Opt (Chr 91), Grp 1 (Plus (Digit U)), Opt (Chr 37), Opt (Chr 93)]"

definition rating_pattern :: "ucd \<Rightarrow> ustring \<Rightarrow> regex" where
  "rating_pattern U label =
     seqs [lit label, Star Space, Opt (Chr 91), Grp 1 (Plus (Digit U)), Opt (Chr 93)]"

definition operations_percent_label :: ustring where
  "operations_percent_label = [42, 42, 1042, 1099, 1087, 1086, 1083, 1085, 1077, 1085, 1080, 1077, 32, 1086, 1087, 1077, 1088, 1072, 1094, 1080, 1081] @ asc '':**''"

definition tactics_percent_label :: ustring where
  "tactics_percent_label = [42, 42, 1042, 1099, 1087, 1086, 1083, 1085, 1077, 1085, 1080, 1077, 32, 1090, 1072, 1082, 1090, 1080, 1082, 1080] @ asc '':**''"

definition rating_label :: ustring where
  "rating_label = [42, 42, 1054, 1073, 1097, 1072, 1103, 32, 1086, 1094, 1077, 1085, 1082, 1072] @ asc '':**''"

text \<open>
  A number field: \<open>None\<close> when the pattern is not found, else \<open>int(m.group(1))\<close>, which
  raises on more than 4300 digits.
\<close>

definition int_field :: "ucd \<Rightarrow> regex \<Rightarrow> ustring \<Rightarrow> py_error + int option" where
  "int_field U r content =
     (case re_search r content of
        None \<Rightarrow> Inr None
      | Some m \<Rightarrow>
          (case py_int U (group m 1) of
             Inl msg \<Rightarrow> Inl (ValueError msg)
           | Inr n \<Rightarrow> Inr (Some n)))"

text \<open>
  The parse of a text. The checklists and the critical events cannot raise; the three
  number fields are converted in the order rating, operations, tactics, and the first
  conversion that raises ends the parse.
\<close>

definition parse_text :: "ucd \<Rightarrow> ustring \<Rightarrow> py_error + reflection_data" where
  "parse_text U content =
     (case int_field U (rating_pattern U rating_label) content of
        Inl e \<Rightarrow> Inl e
      | Inr rating_value \<Rightarrow>
     (case int_field U (percent_pattern U operations_percent_label) content of
        Inl e \<Rightarrow> Inl e
      | Inr operations_value \<Rightarrow>
     (case int_field U (percent_pattern U tactics_percent_label) content of
        Inl e \<Rightarrow> Inl e
      | Inr tactics_value \<Rightarrow>
          Inr \<lparr>operations_done = done_items True operations_header content,
               tactics_done = done_items False tactics_header content,
               evidence_done = done_items False evidence_header content,
               rating = rating_value,
               operations_percent = operations_value,
               tactics_percent = tactics_value,
               critical_events = detect_critical_events U content\<rparr>)))"

text \<open>
  The file of one day: absent, present but not readable as UTF-8 text (\<open>open\<close> or \<open>read\<close>
  raises), or a text. \<open>parse_reflection_file\<close> raises when the read does and when a number
  field of the text has more than 4300 digits.
\<close>

datatype day_file = Missing | Unreadable | Text ustring

fun parse_reflection_file :: "ucd \<Rightarrow> day_file \<Rightarrow> py_error + reflection_data" where
  "parse_reflection_file U Missing = Inl FileNotFoundError"
| "parse_reflection_file U Unreadable = Inl OSError"
| "parse_reflection_file U (Text content) = parse_text U content"

section \<open>Habits and their completion (\<open>track_habit_streaks\<close>)\<close>

datatype habit_kind = implementation_intention | tiny_habit

record habit =
  h_name :: ustring
  h_kind :: habit_kind
  h_cue :: ustring
  h_action :: ustring

text \<open>\<open>set(re.findall(r'\w+', s.lower()))\<close>\<close>

definition keyword_set :: "ucd \<Rightarrow> ustring \<Rightarrow> ustring set" where
  "keyword_set U s = set (re_findall (Plus (Word U)) (py_lower U s))"

text \<open>
  The keyword set in the words of the specification: the text is lower-cased and cut into
  its words, the maximal runs of word characters. \<open>word_tokens\<close> reads the text from left
  to right with the word that is being read.
\<close>

fun word_tokens :: "(nat \<Rightarrow> bool) \<Rightarrow> ustring \<Rightarrow> ustring \<Rightarrow> ustring list" where
  "word_tokens P cur [] = (if cur = [] then [] else [cur])"
| "word_tokens P cur (c # s) =
     (if P c then word_tokens P (cur @ [c]) s
      else (if cur = [] then [] else [cur]) @ word_tokens P [] s)"

definition spec_keyword_set :: "ucd \<Rightarrow> ustring \<Rightarrow> ustring set" where
  "spec_keyword_set U s = set (word_tokens (is_word U) [] (map (lower_cp U) s))"

text \<open>
  The test of one operation:
  \<open>len(habit_keywords & operation_keywords) >= len(habit_keywords) * 0.5\<close>.
\<close>

definition keyword_overlap :: "ucd \<Rightarrow> ustring \<Rightarrow> ustring \<Rightarrow> bool" where
  "keyword_overlap U name operation \<longleftrightarrow>
     real (card (keyword_set U name \<inter> keyword_set U operation)) \<ge> real (card (keyword_set U name)) * 0.5"

text \<open>
  \<open>check_habit_completion\<close>. The loop returns at the first operation that passes the
  test. After the loop, \<open>reflection_data.get('operations_percent', 0)\<close> finds the key, which
  \<open>parse_reflection_file\<close> always creates, so that the default is not used: the value is
  \<open>None\<close> or an integer, and \<open>None >= 80\<close> raises \<open>TypeError\<close>.
\<close>

fun operations_loop :: "ucd \<Rightarrow> ustring \<Rightarrow> ustring list \<Rightarrow> bool" where
  "operations_loop U name [] = False"
| "operations_loop U name (operation # rest) =
     (if keyword_overlap U name operation then True else operations_loop U name rest)"

definition check_habit_completion :: "ucd \<Rightarrow> habit \<Rightarrow> reflection_data \<Rightarrow> py_error + bool" where
  "check_habit_completion U h r =
     (if operations_loop U (h_name h) (operations_done r) then Inr True
      else (case operations_percent r of
              None \<Rightarrow> Inl TypeError
            | Some p \<Rightarrow> if p \<ge> 80 then Inr True else Inr False))"

text \<open>
  A day is the ordinal of its date (\<open>date.toordinal\<close>); \<open>strftime('%A')\<close> names its weekday,
  day 1 being a Monday. The files of the daily directory are given by date.
\<close>

definition weekday_names :: "string list" where
  "weekday_names =
     [''Monday'', ''Tuesday'', ''Wednesday'', ''Thursday'', ''Friday'', ''Saturday'', ''Sunday'']"

definition strftime_A :: "int \<Rightarrow> string" where
  "strftime_A d = weekday_names ! nat ((d + 6) mod 7)"

record history_entry =
  e_date :: int
  e_completed :: bool
  e_day_of_week :: string

text \<open>
  One round of the collecting loop of \<open>calculate_streaks\<close>: the \<open>try\<close> covers the parse and
  the check, and the bare \<open>except\<close> records the day as not completed.
\<close>

definition day_completed :: "ucd \<Rightarrow> habit \<Rightarrow> day_file \<Rightarrow> bool" where
  "day_completed U h f =
     (if f \<noteq> Missing then
        (case parse_reflection_file U f of
           Inl e \<Rightarrow> False
         | Inr reflection \<Rightarrow>
             (case check_habit_completion U h reflection of
                Inl e \<Rightarrow> False
              | Inr completed \<Rightarrow> completed))
      else False)"

fun collect_history ::
  "ucd \<Rightarrow> habit \<Rightarrow> (int \<Rightarrow> day_file) \<Rightarrow> int \<Rightarrow> nat \<Rightarrow> nat \<Rightarrow> history_entry list" where
  "collect_history U h files today i 0 = []"
| "collect_history U h files today i (Suc n) =
     (let date = today - int i
      in \<lparr>e_date = date, e_completed = day_completed U h (files date),
          e_day_of_week = strftime_A date\<rparr> # collect_history U h files today (Suc i) n)"

text \<open>The history, oldest day first, as \<open>calculate_streaks\<close> has it after \<open>reverse()\<close>.\<close>

definition completion_history ::
  "ucd \<Rightarrow> habit \<Rightarrow> (int \<Rightarrow> day_file) \<Rightarrow> int \<Rightarrow> nat \<Rightarrow> history_entry list" where
  "completion_history U h files today days_back = rev (collect_history U h files today 0 days_back)"

section \<open>Streak statistics (\<open>track_habit_streaks.calculate_streaks\<close>)\<close>

text \<open>
  The rates are Python floats. A float is modelled by the real number it stands for, and
  the rounding of the binary64 arithmetic, which is not part of the repository, is the
  parameter \<open>fl\<close>: the quotient of two integers is \<open>fl (a / b)\<close>, the product of a float and
  100 is \<open>fl (x * 100)\<close>. \<open>round(x, 1)\<close> rounds the exact value of \<open>x\<close> to one decimal, half
  to even, and returns the float next to that decimal.
\<close>

definition round_half_even :: "real \<Rightarrow> int" where
  "round_half_even y =
     (let f = \<lfloor>y\<rfloor>
      in if y - of_int f < 1 / 2 then f
         else if y - of_int f > 1 / 2 then f + 1
         else if even f then f else f + 1)"

definition py_round1 :: "(real \<Rightarrow> real) \<Rightarrow> real \<Rightarrow> real" where
  "py_round1 fl x = fl (of_int (round_half_even (x * 10)) / 10)"

record streak_stats =
  current_streak :: nat
  max_streak :: nat
  completion_rate_7d :: real
  completion_rate_30d :: real
  completion_rate_all :: real
  avg_per_week :: real
  best_days :: "string list"
  worst_days :: "string list"
  day_stats :: "(string \<times> real) list"

text \<open>The loop over the reversed history, with its \<open>break\<close>.\<close>

fun current_loop :: "history_entry list \<Rightarrow> nat \<Rightarrow> nat" where
  "current_loop [] current = current"
| "current_loop (e # es) current =
     (if e_completed e then current_loop es (current + 1) else current)"

text \<open>The forward loop: \<open>mx\<close> is \<open>max_streak\<close>, \<open>temp\<close> the running counter \<open>temp_streak\<close>.\<close>

fun max_loop :: "history_entry list \<Rightarrow> nat \<Rightarrow> nat \<Rightarrow> nat" where
  "max_loop [] mx temp = mx"
| "max_loop (e # es) mx temp =
     (if e_completed e then max_loop es (max mx (temp + 1)) (temp + 1)
      else max_loop es mx 0)"

text \<open>\<open>xs[-n:] if len(xs) >= n else xs\<close>\<close>

definition last_days :: "nat \<Rightarrow> history_entry list \<Rightarrow> history_entry list" where
  "last_days n xs = (if length xs \<ge> n then drop (length xs - n) xs else xs)"

definition completed_count :: "history_entry list \<Rightarrow> nat" where
  "completed_count xs = length (filter e_completed xs)"

text \<open>\<open>sum(1 for e in xs if e['completed']) / len(xs) * 100 if xs else 0\<close>\<close>

definition completion_rate :: "(real \<Rightarrow> real) \<Rightarrow> history_entry list \<Rightarrow> real" where
  "completion_rate fl xs =
     (if xs \<noteq> [] then fl (fl (real (completed_count xs) / real (length xs)) * 100) else 0)"

text \<open>
  \<open>day_completion\<close> is a \<open>defaultdict(list)\<close>: a dictionary in the order in which its keys
  were first used.
\<close>

fun day_append :: "string \<Rightarrow> bool \<Rightarrow> (string \<times> bool list) list \<Rightarrow> (string \<times> bool list) list" where
  "day_append day b [] = [(day, [b])]"
| "day_append day b ((d, bs) # rest) =
     (if d = day then (d, bs @ [b]) # rest else (d, bs) # day_append day b rest)"

fun day_completion_loop ::
  "history_entry list \<Rightarrow> (string \<times> bool list) list \<Rightarrow> (string \<times> bool list) list" where
  "day_completion_loop [] dc = dc"
| "day_completion_loop (e # es) dc =
     day_completion_loop es (day_append (e_day_of_week e) (e_completed e) dc)"

text \<open>\<open>sum(completions) / len(completions) * 100\<close>, for the days that have entries.\<close>

definition day_rate :: "(real \<Rightarrow> real) \<Rightarrow> bool list \<Rightarrow> real" where
  "day_rate fl completions =
     fl (fl (real (length (filter (\<lambda>b. b) completions)) / real (length completions)) * 100)"

definition day_stats_of :: "(real \<Rightarrow> real) \<Rightarrow> (string \<times> bool list) list \<Rightarrow> (string \<times> real) list" where
  "day_stats_of fl dc = map (\<lambda>(day, completions). (day, day_rate fl completions))
                            (filter (\<lambda>(day, completions). completions \<noteq> []) dc)"

text \<open>
  \<open>sorted(day_stats.items(), key=lambda x: x[1], reverse=True)\<close>: by falling rate, items of
  equal rate in the order of the dictionary.
\<close>

definition sorted_days :: "(string \<times> real) list \<Rightarrow> (string \<times> real) list" where
  "sorted_days items = sort_key (\<lambda>item. - snd item) items"

definition streak_statistics :: "(real \<Rightarrow> real) \<Rightarrow> history_entry list \<Rightarrow> streak_stats" where
  "streak_statistics fl history =
     (let stats = day_stats_of fl (day_completion_loop history []);
          srt = sorted_days stats;
          weeks = length history div 7
      in \<lparr>current_streak = current_loop (rev history) 0,
          max_streak = max_loop history 0 0,
          completion_rate_7d = py_round1 fl (completion_rate fl (last_days 7 history)),
          completion_rate_30d = py_round1 fl (completion_rate fl (last_days 30 history)),
          completion_rate_all = py_round1 fl (completion_rate fl history),
          avg_per_week =
            py_round1 fl (if weeks > 0 then fl (real (completed_count history) / real weeks) else 0),
          best_days = (if stats \<noteq> [] then map fst (filter (\<lambda>(day, rate). rate \<ge> 50) (take 2 srt))
                       else []),
          worst_days = (if stats \<noteq> []
                        then map fst (filter (\<lambda>(day, rate). rate < 50) (drop (length srt - 2) srt))
                        else []),
          day_stats = stats\<rparr>)"

definition calculate_streaks ::
  "ucd \<Rightarrow> (real \<Rightarrow> real) \<Rightarrow> habit \<Rightarrow> (int \<Rightarrow> day_file) \<Rightarrow> int \<Rightarrow> nat \<Rightarrow> streak_stats" where
  "calculate_streaks U fl h files today days_back =
     streak_statistics fl (completion_history U h files today days_back)"

text \<open>
  A history of ten days, the first seven completed and the last three not; the days are
  the dates 738991 to 739000.
\<close>

definition ten_day_history :: "history_entry list" where
  "ten_day_history =
     map (\<lambda>i. \<lparr>e_date = 738990 + int i, e_completed = (i \<le> 7),
               e_day_of_week = strftime_A (738990 + int i)\<rparr>) [1 ..< 11]"

section \<open>Validation (\<open>validate_goals\<close>)\<close>

datatype severity = CRITICAL | WARNING | RECOMMENDATION

text \<open>
  An issue of the report: the message, the file it is about and the command that fixes it.
  A path is the list of its components.
\<close>

type_synonym path = "ustring list"

record issue =
  i_message :: ustring
  i_file :: "path option"
  i_fix :: "ustring option"

text \<open>\<open>ValidationReport.issues\<close>: a list of issues for each of the three levels.\<close>

record validation_report =
  critical :: "issue list"
  warning :: "issue list"
  recommendation :: "issue list"

definition empty_report :: validation_report where
  "empty_report = \<lparr>critical = [], warning = [], recommendation = []\<rparr>"

fun add_issue ::
  "severity \<Rightarrow> ustring \<Rightarrow> path option \<Rightarrow> ustring option \<Rightarrow> validation_report \<Rightarrow> validation_report" where
  "add_issue CRITICAL msg file fix_command report =
     report\<lparr>critical := critical report @ [\<lparr>i_message = msg, i_file = file, i_fix = fix_command\<rparr>]\<rparr>"
| "add_issue WARNING msg file fix_command report =
     report\<lparr>warning := warning report @ [\<lparr>i_message = msg, i_file = file, i_fix = fix_command\<rparr>]\<rparr>"
| "add_issue RECOMMENDATION msg file fix_command report =
     report\<lparr>recommendation :=
        recommendation report @ [\<lparr>i_message = msg, i_file = file, i_fix = fix_command\<rparr>]\<rparr>"

definition has_critical :: "validation_report \<Rightarrow> bool" where
  "has_critical report \<longleftrightarrow> length (critical report) > 0"

text \<open>What reading a file gives: its text, or an exception with its message \<open>str(e)\<close>.\<close>

datatype file_read = Readable ustring | ReadError ustring

text \<open>
  The four required sections of a goal, each with the name used in the message: the
  headers "## STRATEGICHESKII UROVEN", "## TAKTICHESKII UROVEN", "## OPERATSIONNYI UROVEN"
  and "## ISTORIYA IZMENENII" in Cyrillic.
\<close>

definition required_sections :: "(ustring \<times> ustring) list" where
  "required_sections =
     [(asc ''## '' @ [1057, 1058, 1056, 1040, 1058, 1045, 1043, 1048, 1063, 1045, 1057, 1050, 1048, 1049, 32, 1059, 1056, 1054, 1042, 1045, 1053, 1068],
       [1057, 1090, 1088, 1072, 1090, 1077, 1075, 1080, 1095, 1077, 1089, 1082, 1080, 1081, 32, 1091, 1088, 1086, 1074, 1077, 1085, 1100]),
      (asc ''## '' @ [1058, 1040, 1050, 1058, 1048, 1063, 1045, 1057, 1050, 1048, 1049, 32, 1059, 1056, 1054, 1042, 1045, 1053, 1068],
       [1058, 1072, 1082, 1090, 1080, 1095, 1077, 1089, 1082, 1080, 1081, 32, 1091, 1088, 1086, 1074, 1077, 1085, 1100]),
      (asc ''## '' @ [1054, 1055, 1045, 1056, 1040, 1062, 1048, 1054, 1053, 1053, 1067, 1049, 32, 1059, 1056, 1054, 1042, 1045, 1053, 1068],
       [1054, 1087, 1077, 1088, 1072, 1094, 1080, 1086, 1085, 1085, 1099, 1081, 32, 1091, 1088, 1086, 1074, 1077, 1085, 1100]),
      (asc ''## '' @ [1048, 1057, 1058, 1054, 1056, 1048, 1071, 32, 1048, 1047, 1052, 1045, 1053, 1045, 1053, 1048, 1049],
       [1048, 1089, 1090, 1086, 1088, 1080, 1103, 32, 1080, 1079, 1084, 1077, 1085, 1077, 1085, 1080, 1081])]"

text \<open>The message "Otsutstvuet sektsiya '\<open>name\<close>'" (a section is missing).\<close>

definition missing_section_message :: "ustring \<Rightarrow> ustring" where
  "missing_section_message name =
     [1054, 1090, 1089, 1091, 1090, 1089, 1090, 1074, 1091, 1077, 1090, 32, 1089, 1077, 1082, 1094, 1080, 1103, 32, 39] @ name @ [39]"

fun sections_loop :: "ustring \<Rightarrow> path \<Rightarrow> (ustring \<times> ustring) list \<Rightarrow> validation_report \<Rightarrow> validation_report" where
  "sections_loop content goal_path [] report = report"
| "sections_loop content goal_path ((pattern, name) # rest) report =
     sections_loop content goal_path rest
       (if \<not> py_in pattern content
        then add_issue CRITICAL (missing_section_message name) (Some goal_path) None report
        else report)"

text \<open>
  The metadata patterns: \<open>\*\*Status:\*\*\s+(active|completed|paused|cancelled)\<close> and
  \<open>\*\*label:\*\*\s+(\d{4}-\d{2}-\d{2})\<close> for the dates of creation and of the last
  update, with the labels in Cyrillic.
\<close>

definition status_pattern :: regex where
  "status_pattern =
     seqs [lit ([42, 42, 1057, 1090, 1072, 1090, 1091, 1089] @ asc '':**''), Plus Space,
           Grp 1 (Alt (lit (asc ''active'')) (Alt (lit (asc ''completed''))
                   (Alt (lit (asc ''paused'')) (lit (asc ''cancelled'')))))]"

definition date_pattern :: "ucd \<Rightarrow> regex" where
  "date_pattern U =
     seqs [Rep (Digit U) 4 (Some 4) True, Chr 45, Rep (Digit U) 2 (Some 2) True, Chr 45,
           Rep (Digit U) 2 (Some 2) True]"

definition created_pattern :: "ucd \<Rightarrow> regex" where
  "created_pattern U =
     seqs [lit ([42, 42, 1044, 1072, 1090, 1072, 32, 1089, 1086, 1079, 1076, 1072, 1085, 1080, 1103] @ asc '':**''), Plus Space,
           Grp 1 (date_pattern U)]"

definition updated_pattern :: "ucd \<Rightarrow> regex" where
  "updated_pattern U =
     seqs [lit ([42, 42, 1055, 1086, 1089, 1083, 1077, 1076, 1085, 1077, 1077, 32, 1086, 1073, 1085, 1086, 1074, 1083, 1077, 1085, 1080, 1077] @ asc '':**''), Plus Space,
           Grp 1 (date_pattern U)]"

definition status_message :: ustring where
  "status_message =
     [1053, 1077, 1082, 1086, 1088, 1088, 1077, 1082, 1090, 1085, 1099, 1081, 32, 1080, 1083, 1080, 32, 1086, 1090, 1089, 1091, 1090, 1089, 1090, 1074, 1091, 1102, 1097, 1080, 1081, 32, 1089, 1090, 1072, 1090, 1091, 1089, 32, 40, 1076, 1086, 1083, 1078, 1077, 1085, 32, 1073, 1099, 1090, 1100] @ asc '': active|completed|paused|cancelled)''"

definition created_message :: ustring where
  "created_message =
     [1054, 1090, 1089, 1091, 1090, 1089, 1090, 1074, 1091, 1077, 1090, 32, 1080, 1083, 1080, 32, 1085, 1077, 1082, 1086, 1088, 1088, 1077, 1082, 1090, 1085, 1072, 32, 1076, 1072, 1090, 1072, 32, 1089, 1086, 1079, 1076, 1072, 1085, 1080, 1103, 32, 40, 1092, 1086, 1088, 1084, 1072, 1090] @ asc '': YYYY-MM-DD)''"

definition updated_message :: ustring where
  "updated_message =
     [1054, 1090, 1089, 1091, 1090, 1089, 1090, 1074, 1091, 1077, 1090, 32, 1080, 1083, 1080, 32, 1085, 1077, 1082, 1086, 1088, 1088, 1077, 1082, 1090, 1085, 1086, 32, 1087, 1086, 1089, 1083, 1077, 1076, 1085, 1077, 1077, 32, 1086, 1073, 1085, 1086, 1074, 1083, 1077, 1085, 1080, 1077, 32, 40, 1092, 1086, 1088, 1084, 1072, 1090] @ asc '': YYYY-MM-DD)''"

text \<open>\<open>(\d+)%\<close> and the message "Protsent vyshe 100%: \<open>percent\<close>%".\<close>

definition any_percent_pattern :: "ucd \<Rightarrow> regex" where
  "any_percent_pattern U = seqs [Grp 1 (Plus (Digit U)), Chr 37]"

definition percent_message :: "ustring \<Rightarrow> ustring" where
  "percent_message percent =
     [1055, 1088, 1086, 1094, 1077, 1085, 1090, 32, 1074, 1099, 1096, 1077] @ asc '' 100%: '' @ percent @ [37]"

text \<open>
  The loop over the captured percentages. \<open>int(percent)\<close> raises on more than 4300 digits;
  the loop then ends with the message of the exception and the report as it stands.
\<close>

fun percent_loop ::
  "ucd \<Rightarrow> path \<Rightarrow> ustring list \<Rightarrow> validation_report \<Rightarrow> (ustring \<times> validation_report) + validation_report" where
  "percent_loop U goal_path [] report = Inr report"
| "percent_loop U goal_path (percent # rest) report =
     (case py_int U percent of
        Inl msg \<Rightarrow> Inl (msg, report)
      | Inr n \<Rightarrow>
          percent_loop U goal_path rest
            (if n > 100
             then add_issue WARNING (percent_message percent) (Some goal_path) None report
             else report))"

text \<open>
  \<open>validate_goal_file\<close>. The whole body stands in a \<open>try\<close>: a failing read and a failing
  \<open>int(percent)\<close> raise, and the handler adds the CRITICAL issue
  "Oshibka chteniya faila: \<open>str(e)\<close>" to the report, which keeps the issues added before.
\<close>

definition read_error_message :: "ustring \<Rightarrow> ustring" where
  "read_error_message e = [1054, 1096, 1080, 1073, 1082, 1072, 32, 1095, 1090, 1077, 1085, 1080, 1103, 32, 1092, 1072, 1081, 1083, 1072, 58, 32] @ e"

definition validate_goal_text ::
  "ucd \<Rightarrow> ustring \<Rightarrow> path \<Rightarrow> validation_report \<Rightarrow> (ustring \<times> validation_report) + validation_report" where
  "validate_goal_text U content goal_path report =
     (let r1 = sections_loop content goal_path required_sections report;
          r2 = (if re_search status_pattern content = None
                then add_issue CRITICAL status_message (Some goal_path) None r1 else r1);
          r3 = (if re_search (created_pattern U) content = None
                then add_issue WARNING created_message (Some goal_path) None r2 else r2);
          r4 = (if re_search (updated_pattern U) content = None
                then add_issue WARNING updated_message (Some goal_path) None r3 else r3)
      in percent_loop U goal_path (re_findall1 (any_percent_pattern U) content) r4)"

fun validate_goal_file :: "ucd \<Rightarrow> path \<Rightarrow> file_read \<Rightarrow> validation_report \<Rightarrow> validation_report" where
  "validate_goal_file U goal_path (Readable content) report =
     (case validate_goal_text U content goal_path report of
        Inr report' \<Rightarrow> report'
      | Inl (msg, report') \<Rightarrow>
          add_issue CRITICAL (read_error_message msg) (Some goal_path) None report')"
| "validate_goal_file U goal_path (ReadError e) report =
     add_issue CRITICAL (read_error_message e) (Some goal_path) None report"

text \<open>
  The daily directory: every \<open>*.md\<close> file below it, by the directories that lead to it from
  the daily directory (none for a file that lies directly in it) and its stem, in the
  order in which the directory is listed.
\<close>

record daily_entry =
  d_dirs :: "ustring list"
  d_stem :: ustring
  d_read :: file_read

definition entry_path :: "daily_entry \<Rightarrow> path" where
  "entry_path e = d_dirs e @ [d_stem e @ asc ''.md'']"

text \<open>
  The project as the validation sees it: the two directories (or \<open>None\<close> for a directory
  that does not exist) with their path texts, whether the system lets a file be moved to
  its place, and whether the report file can be written.
\<close>

record project =
  goals_dir :: ustring
  daily_dir :: ustring
  goal_files :: "(path \<times> file_read) list option"
  daily_files :: "daily_entry list option"
  move_allowed :: "daily_entry \<Rightarrow> bool"
  report_writable :: bool

text \<open>\<open>re.match(r'(\d{4})-(\d{2})-(\d{2})', filename)\<close>: at the start of the name only.\<close>

definition filename_pattern :: "ucd \<Rightarrow> regex" where
  "filename_pattern U =
     seqs [Grp 1 (Rep (Digit U) 4 (Some 4) True), Chr 45, Grp 2 (Rep (Digit U) 2 (Some 2) True),
           Chr 45, Grp 3 (Rep (Digit U) 2 (Some 2) True)]"

definition structure_message :: ustring where
  "structure_message = [1053, 1077, 1087, 1088, 1072, 1074, 1080, 1083, 1100, 1085, 1072, 1103, 32, 1089, 1090, 1088, 1091, 1082, 1090, 1091, 1088, 1072, 32, 1076, 1080, 1088, 1077, 1082, 1090, 1086, 1088, 1080, 1081, 32, 1088, 1077, 1092, 1083, 1077, 1082, 1089, 1080, 1080]"

definition fix_command :: ustring where
  "fix_command = asc ''python scripts/validate_goals.py --fix''"

definition filename_message :: "ustring \<Rightarrow> ustring" where
  "filename_message filename =
     [1053, 1077, 1082, 1086, 1088, 1088, 1077, 1082, 1090, 1085, 1086, 1077, 32, 1080, 1084, 1103, 32, 1092, 1072, 1081, 1083, 1072, 32, 1088, 1077, 1092, 1083, 1077, 1082, 1089, 1080, 1080, 32, 40, 1086, 1078, 1080, 1076, 1072, 1077, 1090, 1089, 1103] @ asc '' YYYY-MM-DD.md): '' @ filename"

definition no_daily_message :: "ustring \<Rightarrow> ustring" where
  "no_daily_message dir = [1044, 1080, 1088, 1077, 1082, 1090, 1086, 1088, 1080, 1103, 32, 1088, 1077, 1092, 1083, 1077, 1082, 1089, 1080, 1081, 32, 1085, 1077, 32, 1089, 1091, 1097, 1077, 1089, 1090, 1074, 1091, 1077, 1090, 58, 32] @ dir"

definition no_goals_message :: "ustring \<Rightarrow> ustring" where
  "no_goals_message dir = [1044, 1080, 1088, 1077, 1082, 1090, 1086, 1088, 1080, 1103, 32, 1094, 1077, 1083, 1077, 1081, 32, 1085, 1077, 32, 1089, 1091, 1097, 1077, 1089, 1090, 1074, 1091, 1077, 1090, 58, 32] @ dir"

text \<open>
  \<open>file_path.rename(correct_path)\<close>: the file leaves its place and takes the place
  \<open>year/month/name\<close>, replacing a file that lies there.
\<close>

definition move_entry :: "daily_entry \<Rightarrow> ustring \<Rightarrow> ustring \<Rightarrow> daily_entry list \<Rightarrow> daily_entry list" where
  "move_entry e year month tree =
     (let moved = e\<lparr>d_dirs := [year, month]\<rparr>
      in filter (\<lambda>x. entry_path x \<noteq> entry_path e \<and> entry_path x \<noteq> entry_path moved) tree
         @ [moved])"

text \<open>
  The loop of \<open>validate_reflections_structure\<close> over the files that lie directly in the
  daily directory. A move that the system refuses raises \<open>OSError\<close>, which nothing in
  \<open>validate_all\<close> catches.
\<close>

fun misplaced_loop ::
  "ucd \<Rightarrow> bool \<Rightarrow> (daily_entry \<Rightarrow> bool) \<Rightarrow> daily_entry list \<Rightarrow> validation_report \<Rightarrow> daily_entry list \<Rightarrow>
     py_error + (validation_report \<times> daily_entry list)" where
  "misplaced_loop U fix allowed [] report tree = Inr (report, tree)"
| "misplaced_loop U fix allowed (e # es) report tree =
     (case match_here (filename_pattern U) (d_stem e) of
        Some (rest, g) \<Rightarrow>
          (let report' = add_issue CRITICAL structure_message (Some (entry_path e))
                           (Some fix_command) report
           in if fix then
                (if allowed e
                 then misplaced_loop U fix allowed es report'
                        (move_entry e (case g 1 of None \<Rightarrow> [] | Some y \<Rightarrow> y)
                                      (case g 2 of None \<Rightarrow> [] | Some m \<Rightarrow> m) tree)
                 else Inl OSError)
              else misplaced_loop U fix allowed es report' tree)
      | None \<Rightarrow>
          misplaced_loop U fix allowed es
            (add_issue WARNING (filename_message (d_stem e)) (Some (entry_path e)) None report)
            tree)"

definition validate_reflections_structure ::
  "ucd \<Rightarrow> project \<Rightarrow> bool \<Rightarrow> validation_report \<Rightarrow> py_error + (validation_report \<times> daily_entry list option)" where
  "validate_reflections_structure U p fix report =
     (case daily_files p of
        None \<Rightarrow> Inr (add_issue CRITICAL (no_daily_message (daily_dir p)) None None report, None)
      | Some tree \<Rightarrow>
          (case misplaced_loop U fix (move_allowed p) (filter (\<lambda>e. d_dirs e = []) tree) report tree of
             Inl err \<Rightarrow> Inl err
           | Inr (report', tree') \<Rightarrow> Inr (report', Some tree')))"

text \<open>
  \<open>validate_reflection_file\<close>: the recommended sections "## UTRO", "## DEN", "## VECHER",
  "## PROGRESS ZA DEN" and "## REFLEKSIYA" (in Cyrillic); the missing ones are named in one
  RECOMMENDATION, joined with \<open>', '\<close>. A failing read gives a WARNING.
\<close>

definition recommended_sections :: "ustring list" where
  "recommended_sections =
     [asc ''## '' @ [1059, 1058, 1056, 1054],
      asc ''## '' @ [1044, 1045, 1053, 1068],
      asc ''## '' @ [1042, 1045, 1063, 1045, 1056],
      asc ''## '' @ [1055, 1056, 1054, 1043, 1056, 1045, 1057, 1057, 32, 1047, 1040, 32, 1044, 1045, 1053, 1068],
      asc ''## '' @ [1056, 1045, 1060, 1051, 1045, 1050, 1057, 1048, 1071]]"

fun join_comma :: "ustring list \<Rightarrow> ustring" where
  "join_comma [] = []"
| "join_comma [x] = x"
| "join_comma (x # y # rest) = x @ [44, 32] @ join_comma (y # rest)"

definition recommend_message :: "ustring list \<Rightarrow> ustring" where
  "recommend_message missing =
     [1056, 1077, 1082, 1086, 1084, 1077, 1085, 1076, 1091, 1077, 1090, 1089, 1103, 32, 1076, 1086, 1073, 1072, 1074, 1080, 1090, 1100, 32, 1089, 1077, 1082, 1094, 1080, 1080, 58, 32] @ join_comma missing"

definition reflection_read_error_message :: "ustring \<Rightarrow> ustring" where
  "reflection_read_error_message e =
     [1054, 1096, 1080, 1073, 1082, 1072, 32, 1095, 1090, 1077, 1085, 1080, 1103, 32, 1092, 1072, 1081, 1083, 1072, 32, 1088, 1077, 1092, 1083, 1077, 1082, 1089, 1080, 1080, 58, 32] @ e"

fun validate_reflection_file :: "path \<Rightarrow> file_read \<Rightarrow> validation_report \<Rightarrow> validation_report" where
  "validate_reflection_file reflection_path (Readable content) report =
     (let missing = filter (\<lambda>section. \<not> py_in section content) recommended_sections
      in if missing \<noteq> []
         then add_issue RECOMMENDATION (recommend_message missing) (Some reflection_path) None report
         else report)"
| "validate_reflection_file reflection_path (ReadError e) report =
     add_issue WARNING (reflection_read_error_message e) (Some reflection_path) None report"

fun goals_loop :: "ucd \<Rightarrow> (path \<times> file_read) list \<Rightarrow> validation_report \<Rightarrow> validation_report" where
  "goals_loop U [] report = report"
| "goals_loop U ((goal_path, f) # rest) report =
     goals_loop U rest (validate_goal_file U goal_path f report)"

fun reflections_loop :: "daily_entry list \<Rightarrow> validation_report \<Rightarrow> validation_report" where
  "reflections_loop [] report = report"
| "reflections_loop (e # es) report =
     reflections_loop es (validate_reflection_file (entry_path e) (d_read e) report)"

text \<open>
  \<open>validate_all\<close>: the goals, the structure of the daily directory, the reflection files
  (\<open>rglob\<close> of a directory that does not exist lists nothing), the report file, and the exit
  code. The prints change nothing. The result is the exit code with the report, or the
  exception that ends the run.
\<close>

definition validate_all :: "ucd \<Rightarrow> project \<Rightarrow> bool \<Rightarrow> py_error + (int \<times> validation_report)" where
  "validate_all U p fix =
     (let r1 = (case goal_files p of
                  Some files \<Rightarrow> goals_loop U files empty_report
                | None \<Rightarrow> add_issue CRITICAL (no_goals_message (goals_dir p)) None None empty_report)
      in case validate_reflections_structure U p fix r1 of
           Inl err \<Rightarrow> Inl err
         | Inr (r2, tree) \<Rightarrow>
             (let reflection_files = (case tree of None \<Rightarrow> [] | Some t \<Rightarrow> t);
                  r3 = reflections_loop reflection_files r2
              in if \<not> report_writable p then Inl OSError
                 else if has_critical r3 then Inr (1, r3) else Inr (0, r3)))"

text \<open>
  \<open>main\<close>: the exit code of the process. An exception of \<open>validate_all\<close> is caught and
  gives 1.
\<close>

definition validate_main :: "ucd \<Rightarrow> project \<Rightarrow> bool \<Rightarrow> int" where
  "validate_main U p fix =
     (case validate_all U p fix of
        Inl err \<Rightarrow> 1
      | Inr (exit_code, report) \<Rightarrow> exit_code)"

section \<open>Example documents\<close>

text \<open>
  A day whose only field is "**Vypolnenie operatsii:** 90%", a day with the checklist
  "#### Operatsii:" holding a checked item \<open>run\<close> and an unchecked item \<open>walk\<close>, a habit,
  and a daily directory with these two days.
\<close>

definition example_percent_day :: ustring where
  "example_percent_day =
     [42, 42, 1042, 1099, 1087, 1086, 1083, 1085, 1077, 1085, 1080, 1077, 32,
      1086, 1087, 1077, 1088, 1072, 1094, 1080, 1081] @ asc '':** 90%''"

definition example_checklist_day :: ustring where
  "example_checklist_day =
     asc ''#### '' @ [1054, 1087, 1077, 1088, 1072, 1094, 1080, 1080, 58, 10] @
     asc ''- [x] run'' @ [10] @ asc ''- [ ] walk'' @ [10]"

definition example_habit :: habit where
  "example_habit =
     \<lparr>h_name = asc ''swim daily'', h_kind = tiny_habit, h_cue = asc ''tea'',
      h_action = asc ''swim daily''\<rparr>"

text \<open>
  A day whose checklist holds the checked item \<open>Swim\<close>, written with a capital letter.
\<close>

definition example_caps_day :: ustring where
  "example_caps_day =
     asc ''#### '' @ [1054, 1087, 1077, 1088, 1072, 1094, 1080, 1080, 58, 10] @
     asc ''- [x] Swim'' @ [10]"

text \<open>
  The digits of a number of 4301 digits, all of them 9, and a day whose only field is
  "**Vypolnenie operatsii:**" followed by this number and a percent sign.
\<close>

definition long_digits :: ustring where
  "long_digits = replicate 4301 57"

definition example_long_percent_day :: ustring where
  "example_long_percent_day =
     ([42, 42, 1042, 1099, 1087, 1086, 1083, 1085, 1077, 1085, 1080, 1077, 32,
       1086, 1087, 1077, 1088, 1072, 1094, 1080, 1081] @ asc '':**'') @ long_digits @ [37]"

definition example_files :: "int \<Rightarrow> day_file" where
  "example_files d =
     (if d = 739000 then Text example_percent_day
      else if d = 738999 then Text example_checklist_day
      else if d = 738998 then Text example_caps_day
      else if d = 738997 then Text example_long_percent_day
      else Missing)"

text \<open>
  A habit named \<open>swim daily run walk\<close> and a day whose checklist holds the checked items
  \<open>swim\<close> and \<open>daily\<close>, followed by the field "**Vypolnenie operatsii:** 10%".
\<close>

definition example_union_habit :: habit where
  "example_union_habit =
     \<lparr>h_name = asc ''swim daily run walk'', h_kind = tiny_habit, h_cue = asc ''tea'',
      h_action = asc ''swim daily run walk''\<rparr>"

definition example_union_day :: ustring where
  "example_union_day =
     asc ''#### '' @ [1054, 1087, 1077, 1088, 1072, 1094, 1080, 1080, 58, 10] @
     asc ''- [x] swim'' @ [10] @ asc ''- [x] daily'' @ [10] @
     [42, 42, 1042, 1099, 1087, 1086, 1083, 1085, 1077, 1085, 1080, 1077, 32,
      1086, 1087, 1077, 1088, 1072, 1094, 1080, 1081] @ asc '':** 10%''"

text \<open>
  Two days with the header "#### Operatsii:": one whose only item is checked with an
  upper-case mark, \<open>- [X] run\<close>, and one with the items \<open>- [x] run\<close>, \<open>- [ ] walk\<close> and
  \<open>- [X] swim\<close>.
\<close>

definition example_upper_day :: ustring where
  "example_upper_day =
     asc ''#### '' @ [1054, 1087, 1077, 1088, 1072, 1094, 1080, 1080, 58, 10] @
     asc ''- [X] run'' @ [10]"

definition example_mixed_day :: ustring where
  "example_mixed_day =
     asc ''#### '' @ [1054, 1087, 1077, 1088, 1072, 1094, 1080, 1080, 58, 10] @
     asc ''- [x] run'' @ [10] @ asc ''- [ ] walk'' @ [10] @ asc ''- [X] swim'' @ [10]"

text \<open>
  A project without goals whose daily directory holds one reflection that cannot be read,
  and the same project without its goals directory.
\<close>

definition example_project :: project where
  "example_project =
     \<lparr>goals_dir = asc ''goals'', daily_dir = asc ''reflections/daily'',
      goal_files = Some [],
      daily_files = Some [\<lparr>d_dirs = [asc ''2025'', asc ''01''], d_stem = asc ''2025-01-05'',
                           d_read = ReadError (asc ''denied'')\<rparr>],
      move_allowed = (\<lambda>e. True), report_writable = True\<rparr>"

definition example_project_no_goals :: project where
  "example_project_no_goals = example_project\<lparr>goal_files := None\<rparr>"



text \<open>A reflection whose text is "Byla avariya na doroge", the keyword in Cyrillic.\<close>

definition example_accident_day :: ustring where
  "example_accident_day =
     asc ''Byla '' @ [1072, 1074, 1072, 1088, 1080, 1103] @ asc '' na doroge''"

section \<open>Facts about the matcher\<close>

text \<open>
  The equations of a repetition are used on a text that is known to be empty or to start
  with a character only: on an unknown text they would unfold the whole fuel.
\<close>

declare re_finditer.simps [simp del] re_sub.simps [simp del]
declare rep_greedy.simps(2) [simp del] rep_lazy.simps(2) [simp del]

lemma rep_greedy_Nil [simp]:
  "rep_greedy m (Suc n) lo [] g k =
     (case m [] g (\<lambda>s' g'. rep_greedy m n (lo - 1) s' g' k) of
        Some r \<Rightarrow> Some r
      | None \<Rightarrow> if lo = 0 then k [] g else None)"
  by (simp add: rep_greedy.simps(2))

lemma rep_greedy_Cons [simp]:
  "rep_greedy m (Suc n) lo (c # cs) g k =
     (case m (c # cs) g (\<lambda>s' g'. rep_greedy m n (lo - 1) s' g' k) of
        Some r \<Rightarrow> Some r
      | None \<Rightarrow> if lo = 0 then k (c # cs) g else None)"
  by (simp add: rep_greedy.simps(2))

lemma rep_lazy_Nil [simp]:
  "rep_lazy m (Suc n) lo [] g k =
     (if lo = 0 then
        (case k [] g of
           Some r \<Rightarrow> Some r
         | None \<Rightarrow> m [] g (\<lambda>s' g'. rep_lazy m n 0 s' g' k))
      else m [] g (\<lambda>s' g'. rep_lazy m n (lo - 1) s' g' k))"
  by (simp add: rep_lazy.simps(2))

lemma rep_lazy_Cons [simp]:
  "rep_lazy m (Suc n) lo (c # cs) g k =
     (if lo = 0 then
        (case k (c # cs) g of
           Some r \<Rightarrow> Some r
         | None \<Rightarrow> m (c # cs) g (\<lambda>s' g'. rep_lazy m n 0 s' g' k))
      else m (c # cs) g (\<lambda>s' g'. rep_lazy m n (lo - 1) s' g' k))"
  by (simp add: rep_lazy.simps(2))

lemma rmatch_lit [simp]:
  "rmatch (lit w) s g k = (if take (length w) s = w then k (drop (length w) s) g else None)"
proof (induction w arbitrary: s)
  case Nil
  then show ?case by (simp add: lit_def)
next
  case (Cons c w)
  have l: "lit (c # w) = Seq (Chr c) (lit w)" by (simp add: lit_def)
  show ?case
    by (cases s) (auto simp: l Chr_def Cons.IH)
qed

lemma seqs_Nil [simp]: "rmatch (seqs []) s g k = k s g"
  by (simp add: seqs_def)

lemma seqs_Cons [simp]:
  "rmatch (seqs (r # rs)) s g k = rmatch r s g (\<lambda>s' g'. rmatch (seqs rs) s' g' k)"
  by (simp add: seqs_def)

lemmas re_defs = re_search_def match_here_def Star_def Plus_def Opt_def PlusLazy_def Dot_def
  Space_def Digit_def Chr_def DotAll_def Word_def group_def


text \<open>A search finds nothing exactly when no place of the text matches.\<close>

lemma search_from_None:
  "search_from r pre s = None \<longleftrightarrow> (\<forall>i \<le> length s. match_here r (drop i s) = None)"
proof (induction r pre s rule: search_from.induct)
  case (1 r pre s)
  show ?case
  proof (cases "match_here r s")
    case (Some p)
    then have "search_from r pre s \<noteq> None"
      by (subst search_from.simps) (auto split: prod.splits)
    moreover from Some have "\<not> (\<forall>i \<le> length s. match_here r (drop i s) = None)"
      by (auto intro: exI[of _ 0])
    ultimately show ?thesis by blast
  next
    case None
    show ?thesis
    proof (cases s)
      case Nil
      with None show ?thesis by (subst search_from.simps) simp
    next
      case (Cons c cs)
      have "search_from r pre s = search_from r (pre @ [c]) cs"
        using None Cons by (subst search_from.simps) simp
      also have "\<dots> = None \<longleftrightarrow> (\<forall>i \<le> length cs. match_here r (drop i cs) = None)"
        using "1.IH"[OF None Cons] .
      also have "\<dots> \<longleftrightarrow> (\<forall>i \<le> length s. match_here r (drop i s) = None)"
      proof
        assume a: "\<forall>i \<le> length cs. match_here r (drop i cs) = None"
        show "\<forall>i \<le> length s. match_here r (drop i s) = None"
        proof (intro allI impI)
          fix i assume "i \<le> length s"
          then show "match_here r (drop i s) = None"
            using a None Cons by (cases i) auto
        qed
      next
        assume a: "\<forall>i \<le> length s. match_here r (drop i s) = None"
        show "\<forall>i \<le> length cs. match_here r (drop i cs) = None"
        proof (intro allI impI)
          fix i assume "i \<le> length cs"
          then have "Suc i \<le> length s" using Cons by simp
          with a have "match_here r (drop (Suc i) s) = None" by blast
          then show "match_here r (drop i cs) = None" using Cons by simp
        qed
      qed
      finally show ?thesis .
    qed
  qed
qed

lemma py_in_iff: "py_in p s \<longleftrightarrow> (\<exists>i \<le> length s. take (length p) (drop i s) = p)"
proof (induction s)
  case Nil
  then show ?case by auto
next
  case (Cons c cs)
  have "(\<exists>i \<le> length (c # cs). take (length p) (drop i (c # cs)) = p) \<longleftrightarrow>
        take (length p) (c # cs) = p \<or> (\<exists>i \<le> length cs. take (length p) (drop i cs) = p)"
  proof
    assume "\<exists>i \<le> length (c # cs). take (length p) (drop i (c # cs)) = p"
    then obtain i where i: "i \<le> length (c # cs)" "take (length p) (drop i (c # cs)) = p" by blast
    show "take (length p) (c # cs) = p \<or> (\<exists>i \<le> length cs. take (length p) (drop i cs) = p)"
    proof (cases i)
      case 0
      with i show ?thesis by simp
    next
      case (Suc j)
      with i have "j \<le> length cs" "take (length p) (drop j cs) = p" by simp_all
      then show ?thesis by blast
    qed
  next
    assume "take (length p) (c # cs) = p \<or> (\<exists>i \<le> length cs. take (length p) (drop i cs) = p)"
    then show "\<exists>i \<le> length (c # cs). take (length p) (drop i (c # cs)) = p"
    proof
      assume "take (length p) (c # cs) = p"
      then show ?thesis by (intro exI[of _ 0]) simp
    next
      assume "\<exists>i \<le> length cs. take (length p) (drop i cs) = p"
      then obtain i where "i \<le> length cs" "take (length p) (drop i cs) = p" by blast
      then show ?thesis by (intro exI[of _ "Suc i"]) simp
    qed
  qed
  with Cons.IH show ?case by (simp add: startswith_def)
qed

lemma search_without_literal:
  assumes "\<not> py_in w s"
  shows "re_search (seqs (lit w # rs)) s = None"
proof -
  have "match_here (seqs (lit w # rs)) (drop i s) = None" if "i \<le> length s" for i
  proof -
    from assms that have "take (length w) (drop i s) \<noteq> w" by (auto simp: py_in_iff)
    then show ?thesis by (simp add: match_here_def)
  qed
  then show ?thesis by (simp add: re_search_def search_from_None)
qed

subsection \<open>Repetition of a character class\<close>

definition run :: "(nat \<Rightarrow> bool) \<Rightarrow> ustring \<Rightarrow> nat" where
  "run P s = length (takeWhile P s)"

lemma run_Nil [simp]: "run P [] = 0"
  by (simp add: run_def)

lemma run_Cons [simp]: "run P (c # cs) = (if P c then Suc (run P cs) else 0)"
  by (simp add: run_def)

lemma run_le_length: "run P s \<le> length s"
  by (simp add: run_def length_takeWhile_le)

lemma rep_greedy_cls_None_gen:
  assumes MN: "\<And>g K. M [] g K = None"
    and MC: "\<And>c cs g K. M (c # cs) g K = (if P c then K cs g else None)"
    and "\<And>j. lo \<le> j \<Longrightarrow> j \<le> min n (run P s) \<Longrightarrow> k (drop j s) g = None"
  shows "rep_greedy (M) n lo s g k = None"
  using assms(3-)
proof (induction n arbitrary: lo s)
  case 0
  then show ?case by (cases "lo = 0") auto
next
  case (Suc n)
  have fallback: "(if lo = 0 then k s g else None) = None"
    using Suc.prems[of 0] by (cases "lo = 0") auto
  then have fallback': "lo = 0 \<Longrightarrow> k s g = None" by simp
  show ?case
  proof (cases s)
    case Nil
    with fallback' show ?thesis by (simp add: rep_greedy.simps(2) MN MC)
  next
    case (Cons c cs)
    show ?thesis
    proof (cases "P c")
      case False
      with Cons fallback' show ?thesis by (simp add: rep_greedy.simps(2) MN MC)
    next
      case True
      have "rep_greedy (M) n (lo - 1) cs g k = None"
      proof (rule Suc.IH)
        fix j assume j: "lo - 1 \<le> j" "j \<le> min n (run P cs)"
        then have "lo \<le> Suc j" "Suc j \<le> min (Suc n) (run P s)" using Cons True by auto
        from Suc.prems[OF this] Cons show "k (drop j cs) g = None" by simp
      qed
      with Cons True fallback' show ?thesis by (simp add: rep_greedy.simps(2) MN MC)
    qed
  qed
qed

lemma rep_greedy_cls_Some_gen:
  assumes MN: "\<And>g K. M [] g K = None"
    and MC: "\<And>c cs g K. M (c # cs) g K = (if P c then K cs g else None)"
    and "lo \<le> j0" and "j0 \<le> min n (run P s)" and "k (drop j0 s) g = Some x"
    and "\<And>j. j0 < j \<Longrightarrow> j \<le> min n (run P s) \<Longrightarrow> k (drop j s) g = None"
  shows "rep_greedy (M) n lo s g k = Some x"
  using assms(3-)
proof (induction n arbitrary: lo s j0)
  case 0
  then show ?case by auto
next
  case (Suc n)
  show ?case
  proof (cases "j0 = 0")
    case True
    with Suc.prems have lo: "lo = 0" and x: "k s g = Some x" by auto
    have "M s g (\<lambda>s' g'. rep_greedy (M) n (lo - 1) s' g' k) = None"
    proof (cases s)
      case Nil
      then show ?thesis by (simp add: MN)
    next
      case (Cons c cs)
      show ?thesis
      proof (cases "P c")
        case False
        with Cons show ?thesis by (simp add: MC)
      next
        case P: True
        have "rep_greedy (M) n (lo - 1) cs g k = None"
        proof (rule rep_greedy_cls_None_gen[where M = M and P = P, OF MN MC])
          fix j assume j: "lo - 1 \<le> j" "j \<le> min n (run P cs)"
          then have "j0 < Suc j" "Suc j \<le> min (Suc n) (run P s)" using Cons P True by auto
          from Suc.prems(4)[OF this] Cons show "k (drop j cs) g = None" by simp
        qed
        with Cons P show ?thesis by (simp add: MC)
      qed
    qed
    with lo x show ?thesis by (simp add: rep_greedy.simps(2) MN MC)
  next
    case False
    then obtain j1 where j1: "j0 = Suc j1" by (cases j0) auto
    with Suc.prems(2) obtain c cs where s: "s = c # cs" and P: "P c"
      by (cases s) (auto split: if_splits)
    have "rep_greedy (M) n (lo - 1) cs g k = Some x"
    proof (rule Suc.IH[where ?j0.0 = j1])
      show "lo - 1 \<le> j1" using Suc.prems(1) j1 by simp
      show "j1 \<le> min n (run P cs)" using Suc.prems(2) j1 s P by simp
      show "k (drop j1 cs) g = Some x" using Suc.prems(3) j1 s by simp
      fix j assume j: "j1 < j" "j \<le> min n (run P cs)"
      then have "j0 < Suc j" "Suc j \<le> min (Suc n) (run P s)" using j1 s P by auto
      from Suc.prems(4)[OF this] s show "k (drop j cs) g = None" by simp
    qed
    with s P show ?thesis by (simp add: rep_greedy.simps(2) MN MC)
  qed
qed

lemma rep_lazy_cls_None_gen:
  assumes MN: "\<And>g K. M [] g K = None"
    and MC: "\<And>c cs g K. M (c # cs) g K = (if P c then K cs g else None)"
    and "\<And>j. lo \<le> j \<Longrightarrow> j \<le> min n (run P s) \<Longrightarrow> k (drop j s) g = None"
  shows "rep_lazy (M) n lo s g k = None"
  using assms(3-)
proof (induction n arbitrary: lo s)
  case 0
  then show ?case by (cases "lo = 0") auto
next
  case (Suc n)
  have here: "lo = 0 \<Longrightarrow> k s g = None"
    using Suc.prems[of 0] by auto
  have step: "M s g (\<lambda>s' g'. rep_lazy (M) n (lo - 1) s' g' k) = None"
  proof (cases s)
    case Nil
    then show ?thesis by (simp add: MN)
  next
    case (Cons c cs)
    show ?thesis
    proof (cases "P c")
      case False
      with Cons show ?thesis by (simp add: MC)
    next
      case True
      have "rep_lazy (M) n (lo - 1) cs g k = None"
      proof (rule Suc.IH)
        fix j assume j: "lo - 1 \<le> j" "j \<le> min n (run P cs)"
        then have "lo \<le> Suc j" "Suc j \<le> min (Suc n) (run P s)" using Cons True by auto
        from Suc.prems[OF this] Cons show "k (drop j cs) g = None" by simp
      qed
      with Cons True show ?thesis by (simp add: MC)
    qed
  qed
  show ?case
  proof (cases "lo = 0")
    case True
    with here step show ?thesis by (simp add: rep_lazy.simps(2) MN MC)
  next
    case False
    with step show ?thesis by (simp add: rep_lazy.simps(2) MN MC)
  qed
qed

lemma rep_lazy_cls_Some_gen:
  assumes MN: "\<And>g K. M [] g K = None"
    and MC: "\<And>c cs g K. M (c # cs) g K = (if P c then K cs g else None)"
    and "lo \<le> j0" and "j0 \<le> min n (run P s)" and "k (drop j0 s) g = Some x"
    and "\<And>j. lo \<le> j \<Longrightarrow> j < j0 \<Longrightarrow> k (drop j s) g = None"
  shows "rep_lazy (M) n lo s g k = Some x"
  using assms(3-)
proof (induction n arbitrary: lo s j0)
  case 0
  then show ?case by auto
next
  case (Suc n)
  show ?case
  proof (cases "j0 = 0")
    case True
    with Suc.prems have "lo = 0" "k s g = Some x" by auto
    then show ?thesis by (simp add: rep_lazy.simps(2) MN MC)
  next
    case False
    then obtain j1 where j1: "j0 = Suc j1" by (cases j0) auto
    with Suc.prems(2) obtain c cs where s: "s = c # cs" and P: "P c"
      by (cases s) (auto split: if_splits)
    have inner: "rep_lazy (M) n (lo - 1) cs g k = Some x"
    proof (rule Suc.IH[where ?j0.0 = j1])
      show "lo - 1 \<le> j1" using Suc.prems(1) j1 by simp
      show "j1 \<le> min n (run P cs)" using Suc.prems(2) j1 s P by simp
      show "k (drop j1 cs) g = Some x" using Suc.prems(3) j1 s by simp
      fix j assume j: "lo - 1 \<le> j" "j < j1"
      show "k (drop j cs) g = None"
      proof (cases "lo \<le> Suc j")
        case True
        from Suc.prems(4)[OF True] j j1 s show ?thesis by simp
      next
        case False
        with j show ?thesis by simp
      qed
    qed
    show ?thesis
    proof (cases "lo = 0")
      case True
      with Suc.prems(4)[of 0] j1 have "k s g = None" by simp
      with True inner s P show ?thesis by (simp add: rep_lazy.simps(2) MN MC)
    next
      case False
      with inner s P show ?thesis by (simp add: rep_lazy.simps(2) MN MC)
    qed
  qed
qed


lemmas rep_greedy_cls_None = rep_greedy_cls_None_gen[where M = "rmatch (Cls P)" and P = P for P, simplified]
lemmas rep_greedy_cls_Some = rep_greedy_cls_Some_gen[where M = "rmatch (Cls P)" and P = P for P, simplified]
lemmas rep_lazy_cls_None = rep_lazy_cls_None_gen[where M = "rmatch (Cls P)" and P = P for P, simplified]
lemmas rep_lazy_cls_Some = rep_lazy_cls_Some_gen[where M = "rmatch (Cls P)" and P = P for P, simplified]

subsection \<open>The leftmost match\<close>

lemma search_from_first:
  assumes "i \<le> length s" and "match_here r (drop i s) = Some (rest, g)"
    and "\<And>i'. i' < i \<Longrightarrow> match_here r (drop i' s) = None"
  shows "search_from r pre s =
           Some \<lparr>m_before = pre @ take i s,
                 m_text = take (length s - i - length rest) (drop i s),
                 m_after = rest, m_group = g\<rparr>"
  using assms
proof (induction i arbitrary: pre s)
  case 0
  then show ?case by (subst search_from.simps) simp
next
  case (Suc i)
  from Suc.prems(1) obtain c cs where s: "s = c # cs" by (cases s) auto
  from Suc.prems(3)[of 0] have none: "match_here r s = None" by simp
  have "search_from r (pre @ [c]) cs =
          Some \<lparr>m_before = (pre @ [c]) @ take i cs,
                m_text = take (length cs - i - length rest) (drop i cs),
                m_after = rest, m_group = g\<rparr>"
  proof (rule Suc.IH)
    show "i \<le> length cs" using Suc.prems(1) s by simp
    show "match_here r (drop i cs) = Some (rest, g)" using Suc.prems(2) s by simp
    fix i' assume "i' < i"
    then have "Suc i' < Suc i" by simp
    from Suc.prems(3)[OF this] s show "match_here r (drop i' cs) = None" by simp
  qed
  with none s show ?case by (subst search_from.simps) simp
qed


lemma re_search_first:
  assumes "i \<le> length s" and "match_here r (drop i s) = Some (rest, g)"
    and "\<And>i'. i' < i \<Longrightarrow> match_here r (drop i' s) = None"
  shows "re_search r s =
           Some \<lparr>m_before = take i s,
                 m_text = take (length s - i - length rest) (drop i s),
                 m_after = rest, m_group = g\<rparr>"
  unfolding re_search_def using search_from_first[OF assms, of "[]"] by simp


lemma re_search_None: "re_search r s = None \<longleftrightarrow> (\<forall>i \<le> length s. match_here r (drop i s) = None)"
  by (simp add: re_search_def search_from_None)

subsection \<open>Digits followed by a percent sign\<close>

lemma run_takeWhile: "run P s = length (takeWhile P s)"
  by (simp add: run_def)


lemma takeWhile_digits_percent:
  assumes "\<not> is_digit U 37" and "\<forall>c \<in> set ds. is_digit U c"
  shows "takeWhile (is_digit U) (ds @ 37 # post) = ds"
  using assms by (simp add: takeWhile_append2)



subsection \<open>Words\<close>

text \<open>
  \<open>re.findall\<close> with \<open>\w+\<close> cuts a text into its maximal runs of word characters, so the
  keyword set of the code is the keyword set of the specification.
\<close>

lemma plus_cls_match_here:
  "match_here (Plus (Cls P)) t =
     (if run P t = 0 then None else Some (drop (run P t) t, \<lambda>n. None))"
proof -
  have unfold: "match_here (Plus (Cls P)) t =
      rep_greedy (rmatch (Cls P)) (1 + length t) 1 t (\<lambda>n. None) (\<lambda>s' g. Some (s', g))"
    by (simp add: match_here_def Plus_def)
  show ?thesis
  proof (cases "run P t = 0")
    case True
    have "rep_greedy (rmatch (Cls P)) (1 + length t) 1 t (\<lambda>n. None) (\<lambda>s' g. Some (s', g)) = None"
      by (rule rep_greedy_cls_None) (use True in simp)
    with True unfold show ?thesis by simp
  next
    case False
    have "rep_greedy (rmatch (Cls P)) (1 + length t) 1 t (\<lambda>n. None) (\<lambda>s' g. Some (s', g))
            = Some (drop (run P t) t, \<lambda>n. None)"
    proof (rule rep_greedy_cls_Some[where ?j0.0 = "run P t"])
      show "1 \<le> run P t" using False by simp
      show "run P t \<le> 1 + length t \<and> run P t \<le> run P t" using run_le_length[of P t] by simp
      show "Some (drop (run P t) t, \<lambda>n. None) = Some (drop (run P t) t, \<lambda>n. None)" ..
      fix j assume "run P t < j" "j \<le> 1 + length t \<and> j \<le> run P t"
      then show "Some (drop j t, \<lambda>n. None) = None" by simp
    qed
    with False unfold show ?thesis by simp
  qed
qed

lemma word_tokens_skip:
  "\<not> P c \<Longrightarrow> word_tokens P [] (c # s) = word_tokens P [] s"
  by simp

lemma word_tokens_run:
  "word_tokens P cur s =
     (if cur @ takeWhile P s = [] then [] else [cur @ takeWhile P s]) @
     word_tokens P [] (dropWhile P s)"
proof (induction s arbitrary: cur)
  case Nil
  then show ?case by simp
next
  case (Cons c s)
  show ?case
  proof (cases "P c")
    case True
    have "word_tokens P cur (c # s) = word_tokens P (cur @ [c]) s" using True by simp
    also have "\<dots> = (if (cur @ [c]) @ takeWhile P s = [] then [] else [(cur @ [c]) @ takeWhile P s]) @
       word_tokens P [] (dropWhile P s)" by (rule Cons.IH)
    finally show ?thesis using True by simp
  next
    case False
    then show ?thesis by simp
  qed
qed

lemma findall_words:
  "re_findall (Plus (Cls P)) s = word_tokens P [] s"
proof (induction s rule: length_induct)
  case (1 s)
  let ?r = "Plus (Cls P)"
  show ?case
  proof (cases "\<exists>c \<in> set s. P c")
    case False
    then have none: "\<forall>c \<in> set s. \<not> P c" by blast
    have "match_here ?r (drop i s) = None" for i
    proof -
      have "run P (drop i s) = 0"
      proof (cases "drop i s")
        case Nil
        then show ?thesis by simp
      next
        case (Cons c cs)
        then have "c \<in> set s" by (metis in_set_dropD list.set_intros(1))
        with none Cons show ?thesis by simp
      qed
      then show ?thesis by (simp add: plus_cls_match_here)
    qed
    then have "re_search ?r s = None" by (simp add: re_search_None)
    then have l: "re_findall ?r s = []"
      by (subst re_findall_def, subst re_finditer.simps) simp
    from none have "word_tokens P [] s = []"
      by (induction s) auto
    with l show ?thesis by simp
  next
    case True
    define a where "a = takeWhile (\<lambda>c. \<not> P c) s"
    define t where "t = dropWhile (\<lambda>c. \<not> P c) s"
    have s: "s = a @ t" by (simp add: a_def t_def)
    from True have tne: "t \<noteq> []" by (auto simp: t_def dropWhile_eq_Nil_conv)
    then have Phd: "P (hd t)" unfolding t_def using hd_dropWhile[of "\<lambda>c. \<not> P c" s] by auto
    have anot: "\<forall>c \<in> set a. \<not> P c" by (auto simp: a_def dest: set_takeWhileD)
    have ta: "drop (length a) s = t" by (simp add: s)
    have runt: "run P t \<noteq> 0" using tne Phd by (cases t) auto
    have rle: "run P t \<le> length t" by (rule run_le_length)
    have search: "re_search ?r s =
           Some \<lparr>m_before = take (length a) s,
                 m_text = take (length s - length a - length (drop (run P t) t)) (drop (length a) s),
                 m_after = drop (run P t) t, m_group = (\<lambda>n. None)\<rparr>"
    proof (rule re_search_first)
      show "length a \<le> length s" by (simp add: s)
      show "match_here ?r (drop (length a) s) = Some (drop (run P t) t, \<lambda>n. None)"
        using runt by (simp add: ta plus_cls_match_here)
      fix i' assume i': "i' < length a"
      then have "drop i' s = a ! i' # drop (Suc i') s"
        by (simp add: s Cons_nth_drop_Suc nth_append)
      moreover from i' anot have "\<not> P (a ! i')" by simp
      ultimately have "run P (drop i' s) = 0" by simp
      then show "match_here ?r (drop i' s) = None" by (simp add: plus_cls_match_here)
    qed
    have mt: "take (length s - length a - length (drop (run P t) t)) (drop (length a) s)
                = takeWhile P t"
    proof -
      have "length s - length a - length (drop (run P t) t) = run P t"
        using rle by (simp add: s)
      then show ?thesis
        by (simp only: ta) (simp add: run_def takeWhile_eq_take[symmetric])
    qed
    have ma: "drop (run P t) t = dropWhile P t"
      by (simp add: run_def dropWhile_eq_drop)
    have twne: "takeWhile P t \<noteq> []" using tne Phd by (cases t) auto
    have "length (takeWhile P t) + length (dropWhile P t) = length t"
      by (simp flip: length_append)
    moreover have "0 < length (takeWhile P t)" using twne by simp
    moreover have "length s = length a + length t" by (simp add: s)
    ultimately have "length (dropWhile P t) < length s" by linarith
    with 1 have IH: "re_findall ?r (dropWhile P t) = word_tokens P [] (dropWhile P t)" by blast
    have search': "re_search ?r s =
           Some \<lparr>m_before = take (length a) s, m_text = takeWhile P t,
                 m_after = dropWhile P t, m_group = (\<lambda>n. None)\<rparr>"
      using search mt by (simp only: ma)
    have "re_findall ?r s = takeWhile P t # re_findall ?r (dropWhile P t)"
      unfolding re_findall_def
      by (subst re_finditer.simps) (simp add: search' twne)
    also have "\<dots> = word_tokens P [] t"
      by (subst word_tokens_run[of P "[]" t]) (simp add: IH twne)
    also have "\<dots> = word_tokens P [] s"
      unfolding s using anot by (induction a) auto
    finally show ?thesis .
  qed
qed

lemma keyword_set_spec: "keyword_set U s = spec_keyword_set U s"
  by (simp add: keyword_set_def spec_keyword_set_def Word_def py_lower_def findall_words)

subsection \<open>Number fields\<close>

lemma py_in_set: "py_in p s \<Longrightarrow> set p \<subseteq> set s"
proof -
  assume "py_in p s"
  then obtain i where "take (length p) (drop i s) = p" by (auto simp: py_in_iff)
  then have "set p = set (take (length p) (drop i s))" by simp
  also have "\<dots> \<subseteq> set (drop i s)" by (rule set_take_subset)
  also have "\<dots> \<subseteq> set s" by (rule set_drop_subset)
  finally show ?thesis .
qed

lemma long_digits_props:
  "length long_digits = 4301" "set long_digits = {57}" "long_digits \<noteq> []"
  by (auto simp: long_digits_def)

lemma basic_not_digit_37: "\<not> is_digit basic_ucd 37"
  by (simp add: is_digit_def basic_ucd_def basic_decimal_def)

lemma long_digits_digits: "\<forall>c \<in> set long_digits. is_digit basic_ucd c"
  by (simp add: long_digits_props is_digit_def basic_ucd_def basic_decimal_def)

text \<open>A repetition of a class that the text does not start with matches the empty text.\<close>

lemma rep_greedy_cls_skip:
  assumes "run P t = 0"
  shows "rep_greedy (rmatch (Cls P)) n 0 t g k = k t g"
proof (cases "k t g")
  case None
  have "rep_greedy (rmatch (Cls P)) n 0 t g k = None"
    by (rule rep_greedy_cls_None) (use assms None in simp)
  with None show ?thesis by simp
next
  case (Some x)
  have "rep_greedy (rmatch (Cls P)) n 0 t g k = Some x"
    by (rule rep_greedy_cls_Some[where ?j0.0 = 0]) (use assms Some in simp_all)
  with Some show ?thesis by simp
qed

lemma star_skip: "run P t = 0 \<Longrightarrow> rmatch (Star (Cls P)) t g k = k t g"
  by (simp add: Star_def rep_greedy_cls_skip)

lemma opt_skip: "run P t = 0 \<Longrightarrow> rmatch (Opt (Cls P)) t g k = k t g"
  by (simp add: Opt_def rep_greedy_cls_skip)

lemma digits_group:
  assumes d: "takeWhile P t = d" "d \<noteq> []"
    and k: "k (drop (length d) t) (g(n \<mapsto> d)) = Some x"
  shows "rmatch (Grp n (Plus (Cls P))) t g k = Some x"
proof -
  let ?K = "\<lambda>s' g'. k s' (g'(n \<mapsto> take (length t - length s') t))"
  have len: "length d = run P t" using d(1) by (simp add: run_def)
  have dlen: "length d \<le> length t" using len run_le_length[of P t] by simp
  have td: "take (length d) t = d" unfolding d(1)[symmetric] by (rule takeWhile_eq_take[symmetric])
  have "rep_greedy (rmatch (Cls P)) (1 + length t) 1 t g ?K = Some x"
  proof (rule rep_greedy_cls_Some[where ?j0.0 = "length d"])
    show "1 \<le> length d" using d(2) by (cases d) auto
    show "length d \<le> 1 + length t \<and> length d \<le> run P t" using len dlen by simp
    have "length t - length (drop (length d) t) = length d" using dlen by simp
    then show "k (drop (length d) t) (g(n \<mapsto> take (length t - length (drop (length d) t)) t)) = Some x"
      using k td by simp
    fix j assume "length d < j" "j \<le> 1 + length t \<and> j \<le> run P t"
    with len show "k (drop j t) (g(n \<mapsto> take (length t - length (drop j t)) t)) = None" by simp
  qed
  then show ?thesis by (simp add: Plus_def)
qed

lemma seqs_lit_prefix:
  "rmatch (seqs (lit w # rs)) (w @ t) g k = rmatch (seqs rs) t g k"
  by simp

lemma seqs_star_skip:
  "run P t = 0 \<Longrightarrow> rmatch (seqs (Star (Cls P) # rs)) t g k = rmatch (seqs rs) t g k"
  by (simp only: seqs_Cons star_skip)

lemma seqs_opt_skip:
  "run P t = 0 \<Longrightarrow> rmatch (seqs (Opt (Cls P) # rs)) t g k = rmatch (seqs rs) t g k"
  by (simp only: seqs_Cons opt_skip)

lemma seqs_digits_group:
  assumes "takeWhile P t = d" "d \<noteq> []"
    and "rmatch (seqs rs) (drop (length d) t) (g(n \<mapsto> d)) k = Some x"
  shows "rmatch (seqs (Grp n (Plus (Cls P)) # rs)) t g k = Some x"
  by (simp only: seqs_Cons) (rule digits_group[OF assms(1,2)], rule assms(3))

lemma percent_field_match:
  assumes ds: "\<forall>c \<in> set ds. is_digit U c" "ds \<noteq> []"
    and hd: "\<not> py_isspace (hd ds)" "hd ds \<noteq> 91" and nd: "\<not> is_digit U 37"
  shows "match_here (percent_pattern U label) (label @ ds @ [37]) = Some ([], [1 \<mapsto> ds])"
proof -
  let ?t = "ds @ [37]"
  from ds(2) obtain d0 ds' where dsC: "ds = d0 # ds'" by (cases ds) auto
  have r1: "run py_isspace ?t = 0" using hd(1) by (simp add: dsC)
  have r2: "run (\<lambda>x. x = 91) ?t = 0" using hd(2) by (simp add: dsC)
  have tw: "takeWhile (is_digit U) ?t = ds"
    using takeWhile_digits_percent[OF nd ds(1), of "[]"] by simp
  have tail: "rmatch (seqs [Opt (Chr 37), Opt (Chr 93)]) (drop (length ds) ?t)
                ((\<lambda>n. None)(1 \<mapsto> ds)) (\<lambda>s' g. Some (s', g)) = Some ([], [1 \<mapsto> ds])"
    by (simp add: Opt_def Chr_def)
  have "rmatch (seqs [Grp 1 (Plus (Cls (is_digit U))), Opt (Chr 37), Opt (Chr 93)]) ?t
          (\<lambda>n. None) (\<lambda>s' g. Some (s', g)) = Some ([], [1 \<mapsto> ds])"
    by (rule seqs_digits_group[OF tw ds(2) tail])
  then show ?thesis
    unfolding match_here_def percent_pattern_def Space_def Digit_def Chr_def[of 91]
    by (simp only: seqs_lit_prefix seqs_star_skip[OF r1] seqs_opt_skip[OF r2])
qed

lemma long_digits_hd: "hd long_digits = 57"
  by (simp add: long_digits_def)

section \<open>The completion of a day\<close>

subsection \<open>The record of a day\<close>

lemma operations_loop_iff:
  "operations_loop U name ops \<longleftrightarrow> (\<exists>operation \<in> set ops. keyword_overlap U name operation)"
  by (induction ops) auto

lemma keyword_overlap_iff:
  "keyword_overlap U name operation \<longleftrightarrow>
     card (keyword_set U name) \<le> 2 * card (keyword_set U name \<inter> keyword_set U operation)"
  unfolding keyword_overlap_def by (simp add: field_simps) linarith

lemma done_items_without_header:
  "\<not> py_in header content \<Longrightarrow> done_items guard header content = []"
  by (simp add: done_items_def checklist_pattern_def search_without_literal)

lemma int_field_without_label:
  "\<not> py_in label content \<Longrightarrow> int_field U (percent_pattern U label) content = Inr None"
  "\<not> py_in label content \<Longrightarrow> int_field U (rating_pattern U label) content = Inr None"
  by (simp_all add: int_field_def percent_pattern_def rating_pattern_def search_without_literal)

lemma parse_text_InrD:
  assumes "parse_text U content = Inr r"
  shows "operations_done r = done_items True operations_header content"
    and "int_field U (percent_pattern U operations_percent_label) content = Inr (operations_percent r)"
  using assms by (auto simp: parse_text_def split: sum.splits)

lemma parse_text_InrI:
  assumes "int_field U (rating_pattern U rating_label) content = Inr a"
    and "int_field U (percent_pattern U operations_percent_label) content = Inr b"
    and "int_field U (percent_pattern U tactics_percent_label) content = Inr c"
  shows "\<exists>r. parse_text U content = Inr r \<and>
             operations_done r = done_items True operations_header content \<and>
             operations_percent r = b"
  using assms by (simp add: parse_text_def)

lemma day_completed_iff:
  "day_completed U h f \<longleftrightarrow>
     (case f of
        Text content \<Rightarrow>
          (case parse_text U content of
             Inl e \<Rightarrow> False
           | Inr r \<Rightarrow>
               (\<exists>operation \<in> set (operations_done r). keyword_overlap U (h_name h) operation)
               \<or> (\<exists>p. operations_percent r = Some p \<and> p \<ge> 80))
      | _ \<Rightarrow> False)"
  by (cases f)
     (auto simp: day_completed_def check_habit_completion_def operations_loop_iff
           split: option.splits sum.splits)

lemmas label_eval = rating_label_def operations_percent_label_def tactics_percent_label_def
  operations_header_def asc_def startswith_def

lemmas checklist_eval = done_items_def checklist_pattern_def operations_header_def
  asc_def re_defs search_from.simps py_isspace_def py_strip_def startswith_def strip_checkbox_def
  checkbox_pattern_def re_sub.simps

lemmas percent_eval = int_field_def percent_pattern_def operations_percent_label_def asc_def
  re_defs search_from.simps basic_ucd_def is_digit_def basic_decimal_def py_isspace_def
  py_int_def max_str_digits_def digits_value_def

lemma example_percent_day_parse:
  "\<exists>r. parse_text basic_ucd example_percent_day = Inr r \<and> operations_done r = [] \<and>
       operations_percent r = Some 90"
proof -
  have a: "int_field basic_ucd (rating_pattern basic_ucd rating_label) example_percent_day = Inr None"
    by (rule int_field_without_label) (simp add: example_percent_day_def label_eval)
  have b: "int_field basic_ucd (percent_pattern basic_ucd operations_percent_label)
             example_percent_day = Inr (Some 90)"
    by (simp add: example_percent_day_def percent_eval)
  have c: "int_field basic_ucd (percent_pattern basic_ucd tactics_percent_label)
             example_percent_day = Inr None"
    by (rule int_field_without_label) (simp add: example_percent_day_def label_eval)
  have d: "done_items True operations_header example_percent_day = []"
    by (rule done_items_without_header) (simp add: example_percent_day_def label_eval)
  from parse_text_InrI[OF a b c] d show ?thesis by simp
qed

lemma example_checklist_day_percent:
  "re_search (percent_pattern basic_ucd operations_percent_label) example_checklist_day = None"
  by (simp add: percent_pattern_def search_without_literal example_checklist_day_def label_eval)

lemma example_checklist_day_parse:
  "\<exists>r. parse_text basic_ucd example_checklist_day = Inr r \<and>
       operations_done r = [asc ''run''] \<and> operations_percent r = None"
proof -
  have a: "int_field basic_ucd (rating_pattern basic_ucd rating_label) example_checklist_day = Inr None"
    by (rule int_field_without_label) (simp add: example_checklist_day_def label_eval)
  have b: "int_field basic_ucd (percent_pattern basic_ucd operations_percent_label)
             example_checklist_day = Inr None"
    by (rule int_field_without_label) (simp add: example_checklist_day_def label_eval)
  have c: "int_field basic_ucd (percent_pattern basic_ucd tactics_percent_label)
             example_checklist_day = Inr None"
    by (rule int_field_without_label) (simp add: example_checklist_day_def label_eval)
  have d: "done_items True operations_header example_checklist_day = [asc ''run'']"
    by (simp add: example_checklist_day_def checklist_eval)
  from parse_text_InrI[OF a b c] d show ?thesis by simp
qed

lemma example_caps_day_parse:
  "\<exists>r. parse_text basic_ucd example_caps_day = Inr r \<and>
       operations_done r = [asc ''Swim''] \<and> operations_percent r = None"
proof -
  have a: "int_field basic_ucd (rating_pattern basic_ucd rating_label) example_caps_day = Inr None"
    by (rule int_field_without_label) (simp add: example_caps_day_def label_eval)
  have b: "int_field basic_ucd (percent_pattern basic_ucd operations_percent_label)
             example_caps_day = Inr None"
    by (rule int_field_without_label) (simp add: example_caps_day_def label_eval)
  have c: "int_field basic_ucd (percent_pattern basic_ucd tactics_percent_label)
             example_caps_day = Inr None"
    by (rule int_field_without_label) (simp add: example_caps_day_def label_eval)
  have d: "done_items True operations_header example_caps_day = [asc ''Swim'']"
    by (simp add: example_caps_day_def checklist_eval)
  from parse_text_InrI[OF a b c] d show ?thesis by simp
qed

lemma example_union_day_parse:
  "\<exists>r. parse_text basic_ucd example_union_day = Inr r \<and>
       operations_done r = [asc ''swim'', asc ''daily''] \<and> operations_percent r = Some 10"
proof -
  have a: "int_field basic_ucd (rating_pattern basic_ucd rating_label) example_union_day = Inr None"
    by (rule int_field_without_label) (simp add: example_union_day_def label_eval)
  have b: "int_field basic_ucd (percent_pattern basic_ucd operations_percent_label)
             example_union_day = Inr (Some 10)"
    by (simp add: example_union_day_def percent_eval)
  have c: "int_field basic_ucd (percent_pattern basic_ucd tactics_percent_label)
             example_union_day = Inr None"
    by (rule int_field_without_label) (simp add: example_union_day_def label_eval)
  have d: "done_items True operations_header example_union_day = [asc ''swim'', asc ''daily'']"
    by (simp add: example_union_day_def checklist_eval)
  from parse_text_InrI[OF a b c] d show ?thesis by simp
qed

lemma example_long_percent_day_parse:
  "parse_text basic_ucd example_long_percent_day = Inl (ValueError (int_limit_message 4301))"
proof -
  let ?r = "percent_pattern basic_ucd operations_percent_label"
  have "1054 \<in> set rating_label" by (simp add: rating_label_def)
  moreover have "1054 \<notin> set example_long_percent_day"
    by (simp add: example_long_percent_day_def long_digits_props asc_def)
  ultimately have "\<not> py_in rating_label example_long_percent_day"
    using py_in_set[of rating_label example_long_percent_day] by blast
  then have a: "int_field basic_ucd (rating_pattern basic_ucd rating_label)
                  example_long_percent_day = Inr None"
    by (rule int_field_without_label)
  have day: "example_long_percent_day = operations_percent_label @ long_digits @ [37]"
    by (simp add: example_long_percent_day_def operations_percent_label_def)
  have here: "match_here ?r (drop 0 example_long_percent_day) = Some ([], [1 \<mapsto> long_digits])"
    unfolding day drop_0
    by (rule percent_field_match[OF long_digits_digits long_digits_props(3) _ _ basic_not_digit_37])
       (simp_all add: long_digits_hd py_isspace_def)
  have search: "re_search ?r example_long_percent_day =
      Some \<lparr>m_before = take 0 example_long_percent_day,
            m_text = take (length example_long_percent_day - 0 - length ([]::ustring))
                       (drop 0 example_long_percent_day),
            m_after = [], m_group = [1 \<mapsto> long_digits]\<rparr>"
    by (rule re_search_first[OF _ here]) simp_all
  have b: "int_field basic_ucd ?r example_long_percent_day
             = Inl (ValueError (int_limit_message 4301))"
    by (simp add: int_field_def search group_def py_int_def max_str_digits_def long_digits_props)
  show ?thesis by (simp add: parse_text_def a b)
qed

lemmas words_eval = spec_keyword_set_def basic_ucd_def basic_lower_def basic_word_def asc_def

lemma spec_keyword_set_examples:
  "spec_keyword_set basic_ucd (asc ''swim daily'') = {asc ''swim'', asc ''daily''}"
  "spec_keyword_set basic_ucd (asc ''run'') = {asc ''run''}"
  "spec_keyword_set basic_ucd (asc ''Swim'') = {asc ''swim''}"
  "spec_keyword_set basic_ucd (asc ''swim'') = {asc ''swim''}"
  "spec_keyword_set basic_ucd (asc ''daily'') = {asc ''daily''}"
  "spec_keyword_set basic_ucd (asc ''swim daily run walk'') =
     {asc ''swim'', asc ''daily'', asc ''run'', asc ''walk''}"
  by (simp_all add: words_eval)

subsection \<open>The history of a habit\<close>

lemma collect_history_length [simp]: "length (collect_history U h files today i n) = n"
  by (induction n arbitrary: i) (auto simp: Let_def)

lemma collect_history_nth:
  "j < n \<Longrightarrow>
   collect_history U h files today i n ! j =
     \<lparr>e_date = today - int (i + j),
      e_completed = day_completed U h (files (today - int (i + j))),
      e_day_of_week = strftime_A (today - int (i + j))\<rparr>"
proof (induction n arbitrary: i j)
  case 0
  then show ?case by simp
next
  case (Suc n)
  show ?case
  proof (cases j)
    case 0
    then show ?thesis by (simp add: Let_def)
  next
    case (Suc j')
    with Suc.prems have "j' < n" by simp
    from Suc.IH[OF this, of "Suc i"] Suc show ?thesis by (simp add: Let_def)
  qed
qed

lemma completion_history_nth:
  assumes "i < days_back"
  shows "completion_history U h files today days_back ! i =
     \<lparr>e_date = today - int (days_back - 1 - i),
      e_completed = day_completed U h (files (today - int (days_back - 1 - i))),
      e_day_of_week = strftime_A (today - int (days_back - 1 - i))\<rparr>"
proof -
  have "completion_history U h files today days_back ! i =
          collect_history U h files today 0 days_back ! (days_back - Suc i)"
    unfolding completion_history_def using assms by (simp add: rev_nth)
  also have "\<dots> = \<lparr>e_date = today - int (0 + (days_back - Suc i)),
      e_completed = day_completed U h (files (today - int (0 + (days_back - Suc i)))),
      e_day_of_week = strftime_A (today - int (0 + (days_back - Suc i)))\<rparr>"
    using assms by (intro collect_history_nth) simp
  finally show ?thesis by simp
qed

text \<open>
  Claim C1, as amended. In the history that \<open>calculate_streaks\<close> collects over its
  window of \<open>days_back\<close> days (90 by default), oldest day first, every day of the window has
  an entry, and the entry of a day is completed exactly when the file of the day exists,
  can be read and parsed without an exception, and either (a) some single entry of its
  \<open>operations_done\<close> holds, among its own keywords, at least half of the keywords of the
  habit's name, or (b) its recorded \<open>operations_percent\<close> is at least 80. The keywords of a
  text are the words of the specification: the maximal runs of word characters of the
  lower-cased text. A missing file, a file that cannot be read, a parse that raises (a
  number field of more than 4300 digits) and a check that raises give a day that is not
  completed, and the other days are not affected.
\<close>

theorem day_judged_completed:
  assumes "i < days_back"
  shows "length (completion_history U h files today days_back) = days_back \<and>
     (e_completed (completion_history U h files today days_back ! i) \<longleftrightarrow>
        (case files (today - int (days_back - 1 - i)) of
           Text content \<Rightarrow>
             (case parse_text U content of
                Inl e \<Rightarrow> False
              | Inr r \<Rightarrow>
                  (\<exists>operation \<in> set (operations_done r).
                      card (spec_keyword_set U (h_name h))
                        \<le> 2 * card (spec_keyword_set U (h_name h) \<inter> spec_keyword_set U operation))
                  \<or> (\<exists>p. operations_percent r = Some p \<and> p \<ge> 80))
         | _ \<Rightarrow> False))"
proof -
  have len: "length (completion_history U h files today days_back) = days_back"
    by (simp add: completion_history_def)
  have "e_completed (completion_history U h files today days_back ! i) =
          day_completed U h (files (today - int (days_back - 1 - i)))"
    by (simp only: completion_history_nth[OF assms] history_entry.simps)
  then show ?thesis
    using len by (simp only: day_completed_iff keyword_overlap_iff keyword_set_spec)
qed

theorem day_judged_completed_witness:
  "(0::nat) < 4 \<and>
   length (completion_history basic_ucd example_habit example_files 739000 4) = 4 \<and>
   \<not> e_completed (completion_history basic_ucd example_habit example_files 739000 4 ! 0) \<and>
   e_completed (completion_history basic_ucd example_habit example_files 739000 4 ! 1) \<and>
   \<not> e_completed (completion_history basic_ucd example_habit example_files 739000 4 ! 2) \<and>
   e_completed (completion_history basic_ucd example_habit example_files 739000 4 ! 3)"
proof -
  have a: "(0::nat) < 4" and b: "(1::nat) < 4" and c: "(2::nat) < 4" and d: "(3::nat) < 4"
    by simp_all
  from example_caps_day_parse obtain r0 where r0:
    "parse_text basic_ucd example_caps_day = Inr r0" "operations_done r0 = [asc ''Swim'']"
    by blast
  from example_checklist_day_parse obtain r1 where r1:
    "parse_text basic_ucd example_checklist_day = Inr r1" "operations_done r1 = [asc ''run'']"
    "operations_percent r1 = None"
    by blast
  from example_percent_day_parse obtain r2 where r2:
    "parse_text basic_ucd example_percent_day = Inr r2" "operations_percent r2 = Some 90"
    by blast
  have k0: "card (spec_keyword_set basic_ucd (asc ''swim daily''))
             \<le> 2 * card (spec_keyword_set basic_ucd (asc ''swim daily'') \<inter>
                          spec_keyword_set basic_ucd (asc ''Swim''))"
    by (simp only: spec_keyword_set_examples) (simp add: asc_def)
  have k1: "\<not> card (spec_keyword_set basic_ucd (asc ''swim daily''))
             \<le> 2 * card (spec_keyword_set basic_ucd (asc ''swim daily'') \<inter>
                          spec_keyword_set basic_ucd (asc ''run''))"
    by (simp only: spec_keyword_set_examples) (simp add: asc_def)
  from day_judged_completed[OF a, of basic_ucd example_habit example_files 739000]
    day_judged_completed[OF b, of basic_ucd example_habit example_files 739000]
    day_judged_completed[OF c, of basic_ucd example_habit example_files 739000]
    day_judged_completed[OF d, of basic_ucd example_habit example_files 739000]
  show ?thesis
    using k0 k1
    by (simp add: example_files_def example_habit_def r0 r1 r2 example_long_percent_day_parse)
qed

text \<open>
  Claim C1 reads the test (a) over all entries of the day together. The loop of
  \<open>check_habit_completion\<close> tests one entry at a time: for the habit
  \<open>swim daily run walk\<close> and a day with the checked items \<open>swim\<close> and \<open>daily\<close> and 10% of
  the operations, the keywords of the entries together hold two of the four keywords of
  the habit, each entry alone holds one, and the day is not completed.
\<close>

theorem entries_union_counterexample:
  "\<exists>r. parse_reflection_file basic_ucd (Text example_union_day) = Inr r \<and>
       operations_done r = [asc ''swim'', asc ''daily''] \<and>
       operations_percent r = Some 10 \<and>
       card (spec_keyword_set basic_ucd (h_name example_union_habit)) = 4 \<and>
       card (spec_keyword_set basic_ucd (h_name example_union_habit) \<inter>
             (\<Union>operation \<in> set (operations_done r). spec_keyword_set basic_ucd operation)) = 2 \<and>
       check_habit_completion basic_ucd example_union_habit r = Inr False \<and>
       \<not> e_completed (completion_history basic_ucd example_union_habit
                         (\<lambda>d. Text example_union_day) 739000 1 ! 0)"
proof -
  from example_union_day_parse obtain r where r:
    "parse_text basic_ucd example_union_day = Inr r"
    "operations_done r = [asc ''swim'', asc ''daily'']" "operations_percent r = Some 10"
    by blast
  have c4: "card (spec_keyword_set basic_ucd (asc ''swim daily run walk'')) = 4"
    by (simp only: spec_keyword_set_examples) (simp add: asc_def)
  have c2: "card (spec_keyword_set basic_ucd (asc ''swim daily run walk'') \<inter>
             (spec_keyword_set basic_ucd (asc ''swim'') \<union> spec_keyword_set basic_ucd (asc ''daily''))) = 2"
    by (simp only: spec_keyword_set_examples) (simp add: asc_def)
  have o1: "\<not> keyword_overlap basic_ucd (asc ''swim daily run walk'') (asc ''swim'')"
    by (simp only: keyword_overlap_iff keyword_set_spec spec_keyword_set_examples)
       (simp add: asc_def)
  have o2: "\<not> keyword_overlap basic_ucd (asc ''swim daily run walk'') (asc ''daily'')"
    by (simp only: keyword_overlap_iff keyword_set_spec spec_keyword_set_examples)
       (simp add: asc_def)
  have chk: "check_habit_completion basic_ucd example_union_habit r = Inr False"
    using o1 o2 by (simp add: check_habit_completion_def example_union_habit_def r)
  have day: "\<not> day_completed basic_ucd example_union_habit (Text example_union_day)"
    by (simp add: day_completed_def r chk)
  have "\<not> e_completed (completion_history basic_ucd example_union_habit
                         (\<lambda>d. Text example_union_day) 739000 1 ! 0)"
    using day by (simp add: completion_history_nth)
  with r c4 c2 chk show ?thesis
    by (intro exI[of _ r]) (simp add: example_union_habit_def)
qed

text \<open>
  Claim C10. For every record that \<open>parse_reflection_file\<close> returns for a document
  without the operations-percent field, the record stores \<open>None\<close> under the key, and when
  moreover no entry of \<open>operations_done\<close> passes the keyword test,
  \<open>check_habit_completion\<close> raises \<open>TypeError\<close> instead of returning \<open>False\<close>; the bare
  \<open>except\<close> of \<open>calculate_streaks\<close> then records the day as not completed.
\<close>

theorem missing_percent_raises:
  assumes "parse_reflection_file U (Text content) = Inr r"
    and "re_search (percent_pattern U operations_percent_label) content = None"
    and "\<forall>operation \<in> set (operations_done r). \<not> keyword_overlap U (h_name h) operation"
  shows "operations_percent r = None \<and>
         check_habit_completion U h r = Inl TypeError \<and>
         \<not> day_completed U h (Text content)"
proof -
  from assms(1) have p: "parse_text U content = Inr r" by simp
  from parse_text_InrD(2)[OF p] assms(2) have none: "operations_percent r = None"
    by (simp add: int_field_def)
  have loop: "\<not> operations_loop U (h_name h) (operations_done r)"
    using assms(3) by (simp add: operations_loop_iff)
  have chk: "check_habit_completion U h r = Inl TypeError"
    using none loop by (simp add: check_habit_completion_def)
  show ?thesis
    using none chk p by (simp add: day_completed_def)
qed

theorem missing_percent_raises_witness:
  "\<exists>r. parse_reflection_file basic_ucd (Text example_checklist_day) = Inr r \<and>
       re_search (percent_pattern basic_ucd operations_percent_label) example_checklist_day = None \<and>
       operations_done r = [asc ''run''] \<and>
       \<not> keyword_overlap basic_ucd (h_name example_habit) (asc ''run'') \<and>
       operations_percent r = None \<and>
       check_habit_completion basic_ucd example_habit r = Inl TypeError \<and>
       \<not> day_completed basic_ucd example_habit (Text example_checklist_day)"
proof -
  from example_checklist_day_parse obtain r where r:
    "parse_text basic_ucd example_checklist_day = Inr r" "operations_done r = [asc ''run'']"
    by blast
  then have p: "parse_reflection_file basic_ucd (Text example_checklist_day) = Inr r" by simp
  have no: "\<not> keyword_overlap basic_ucd (h_name example_habit) (asc ''run'')"
    by (simp only: keyword_overlap_iff keyword_set_spec spec_keyword_set_examples
          example_habit_def habit.simps)
       (simp add: asc_def)
  have all: "\<forall>operation \<in> set (operations_done r).
            \<not> keyword_overlap basic_ucd (h_name example_habit) operation"
    using no by (simp add: r)
  from missing_percent_raises[OF p example_checklist_day_percent all]
  show ?thesis using p example_checklist_day_percent r no by (intro exI[of _ r]) simp
qed


section \<open>Streak statistics: invariants and a ten-day history\<close>

lemma round_half_even_bounds:
  "y - 1 / 2 \<le> of_int (round_half_even y) \<and> of_int (round_half_even y) \<le> y + 1 / 2"
  unfolding round_half_even_def Let_def by (simp; linarith)

lemma ten_day_history_eval:
  "map e_completed ten_day_history = [True, True, True, True, True, True, True, False, False, False]"
  "map e_date ten_day_history = [738991, 738992, 738993, 738994, 738995, 738996, 738997, 738998, 738999, 739000]"
  by (simp_all add: ten_day_history_def upt_rec)

lemma ten_day_history_unfold:
  "ten_day_history = map (\<lambda>i. \<lparr>e_date = 738990 + int i, e_completed = (i \<le> 7),
               e_day_of_week = strftime_A (738990 + int i)\<rparr>) [1, 2, 3, 4, 5, 6, 7, 8, 9, 10]"
  by (simp add: ten_day_history_def upt_rec)

lemma streak_statistics_fields:
  "current_streak (streak_statistics fl h) = current_loop (rev h) 0"
  "max_streak (streak_statistics fl h) = max_loop h 0 0"
  "completion_rate_7d (streak_statistics fl h) = py_round1 fl (completion_rate fl (last_days 7 h))"
  "completion_rate_30d (streak_statistics fl h) = py_round1 fl (completion_rate fl (last_days 30 h))"
  "completion_rate_all (streak_statistics fl h) = py_round1 fl (completion_rate fl h)"
  "day_stats (streak_statistics fl h) = day_stats_of fl (day_completion_loop h [])"
  by (simp_all only: streak_statistics_def Let_def streak_stats.simps)

lemma ten_day_rate:
  "completion_rate_7d (streak_statistics fl ten_day_history) = py_round1 fl (fl (fl (4 / 7) * 100))"
  by (simp add: streak_statistics_fields ten_day_history_unfold last_days_def
        completion_rate_def completed_count_def)

lemma accurate_bounds:
  assumes "\<forall>x. \<bar>fl x - x\<bar> \<le> \<bar>x\<bar> / 1000" and "0 \<le> (x::real)"
  shows "x * 999 / 1000 \<le> fl x \<and> fl x \<le> x * 1001 / 1000"
proof -
  from assms(1) have "\<bar>fl x - x\<bar> \<le> \<bar>x\<bar> / 1000" by blast
  with assms(2) have "fl x - x \<le> x / 1000" "x - fl x \<le> x / 1000" by linarith+
  then show ?thesis by simp
qed

lemma py_round1_bounds:
  assumes acc: "\<forall>x. \<bar>fl x - x\<bar> \<le> \<bar>x\<bar> / 1000" and lo: "1 \<le> (lo::real)" and x: "lo \<le> x" "x \<le> hi"
  shows "(lo - 1 / 20) * 999 / 1000 \<le> py_round1 fl x \<and> py_round1 fl x \<le> (hi + 1 / 20) * 1001 / 1000"
proof -
  define r where "r = real_of_int (round_half_even (x * 10)) / 10"
  from round_half_even_bounds[of "x * 10"] have r: "x - 1 / 20 \<le> r" "r \<le> x + 1 / 20"
    by (simp_all add: r_def field_simps)
  with lo x have "0 \<le> r" by linarith
  from accurate_bounds[OF acc this] have "r * 999 / 1000 \<le> fl r" "fl r \<le> r * 1001 / 1000"
    by simp_all
  with r x show ?thesis unfolding py_round1_def r_def[symmetric] by (simp add: field_simps) 
qed

lemma float_percent_bounds:
  assumes acc: "\<forall>x. \<bar>fl x - x\<bar> \<le> \<bar>x\<bar> / 1000" and q: "0 \<le> (q::real)"
  shows "q * 100 * 998 / 1000 \<le> fl (fl q * 100) \<and> fl (fl q * 100) \<le> q * 100 * 1003 / 1000"
proof -
  from accurate_bounds[OF acc q] have a: "q * 999 / 1000 \<le> fl q" "fl q \<le> q * 1001 / 1000"
    by simp_all
  with q have "0 \<le> fl q * 100" by simp
  from accurate_bounds[OF acc this]
  have "fl q * 100 * 999 / 1000 \<le> fl (fl q * 100)" "fl (fl q * 100) \<le> fl q * 100 * 1001 / 1000"
    by simp_all
  with a q show ?thesis by (simp add: field_simps) 
qed

text \<open>The counter \<open>temp_streak\<close> after the forward loop has run over a history.\<close>

fun temp_after :: "history_entry list \<Rightarrow> nat \<Rightarrow> nat" where
  "temp_after [] t = t"
| "temp_after (e # es) t = (if e_completed e then temp_after es (t + 1) else temp_after es 0)"

lemma temp_after_append: "temp_after (xs @ ys) t = temp_after ys (temp_after xs t)"
  by (induction xs arbitrary: t) auto

lemma max_loop_ge_temp: "t \<le> m \<Longrightarrow> temp_after h t \<le> max_loop h m t"
  by (induction h arbitrary: m t) auto

lemma current_loop_Suc: "current_loop xs (Suc c) = Suc (current_loop xs c)"
  by (induction xs arbitrary: c) auto

lemma current_le_temp: "current_loop (rev h) 0 \<le> temp_after h t"
proof (induction h arbitrary: t rule: rev_induct)
  case Nil
  then show ?case by simp
next
  case (snoc e h)
  show ?case
  proof (cases "e_completed e")
    case True
    have "current_loop (rev (h @ [e])) 0 = Suc (current_loop (rev h) 0)"
      using True current_loop_Suc[of "rev h" 0] by simp
    also have "\<dots> \<le> Suc (temp_after h t)" using snoc.IH[of t] by simp
    also have "\<dots> = temp_after (h @ [e]) t" using True by (simp add: temp_after_append)
    finally show ?thesis .
  next
    case False
    then show ?thesis by simp
  qed
qed

lemma current_le_max: "current_loop (rev h) 0 \<le> max_loop h 0 0"
  using current_le_temp[of h 0] max_loop_ge_temp[of 0 0 h] by simp

lemma round_half_even_range:
  assumes "0 \<le> y" "y \<le> 1000"
  shows "0 \<le> round_half_even y \<and> round_half_even y \<le> 1000"
proof -
  have lo: "\<lfloor>y\<rfloor> \<le> round_half_even y" and hi: "round_half_even y \<le> \<lfloor>y\<rfloor> + 1"
    unfolding round_half_even_def Let_def by simp_all
  have f: "0 \<le> \<lfloor>y\<rfloor>" using assms by simp
  show ?thesis
  proof (cases "\<lfloor>y\<rfloor> \<le> 999")
    case True
    with lo hi f show ?thesis by linarith
  next
    case False
    then have "1000 \<le> \<lfloor>y\<rfloor>" by simp
    then have "1000 \<le> y" by linarith
    with assms have "y = 1000" by simp
    then have "round_half_even y = 1000" by (simp add: round_half_even_def)
    then show ?thesis by simp
  qed
qed

lemma py_round1_range:
  assumes fl: "mono fl" "fl 0 = 0" "fl 100 = 100" and x: "0 \<le> x" "x \<le> 100"
  shows "0 \<le> py_round1 fl x \<and> py_round1 fl x \<le> 100"
proof -
  define r where "r = real_of_int (round_half_even (x * 10)) / 10"
  from round_half_even_range[of "x * 10"] x have "0 \<le> r" "r \<le> 100"
    by (simp_all add: r_def)
  then have "fl 0 \<le> fl r" "fl r \<le> fl 100" by (simp_all add: monoD[OF fl(1)])
  then show ?thesis using fl by (simp add: py_round1_def r_def)
qed

lemma float_percent_range:
  assumes fl: "mono fl" "fl 0 = 0" "fl 1 = 1" "fl 100 = 100" and c: "c \<le> n" "0 < n"
  shows "0 \<le> fl (fl (real c / real n) * 100) \<and> fl (fl (real c / real n) * 100) \<le> 100"
proof -
  have q: "0 \<le> real c / real n" "real c / real n \<le> 1" using c by simp_all
  then have "fl 0 \<le> fl (real c / real n)" "fl (real c / real n) \<le> fl 1"
    by (simp_all add: monoD[OF fl(1)])
  then have "0 \<le> fl (real c / real n) * 100" "fl (real c / real n) * 100 \<le> 100"
    using fl by simp_all
  then have "fl 0 \<le> fl (fl (real c / real n) * 100)" "fl (fl (real c / real n) * 100) \<le> fl 100"
    by (simp_all add: monoD[OF fl(1)])
  then show ?thesis using fl by simp
qed

lemma completion_rate_range:
  assumes fl: "mono fl" "fl 0 = 0" "fl 1 = 1" "fl 100 = 100"
  shows "0 \<le> completion_rate fl xs \<and> completion_rate fl xs \<le> 100"
proof (cases "xs = []")
  case True
  then show ?thesis by (simp add: completion_rate_def)
next
  case False
  have "completed_count xs \<le> length xs" by (simp add: completed_count_def)
  from float_percent_range[OF fl this] False show ?thesis by (simp add: completion_rate_def)
qed

lemma rounded_rate_range:
  assumes fl: "mono fl" "fl 0 = 0" "fl 1 = 1" "fl 100 = 100"
  shows "0 \<le> py_round1 fl (completion_rate fl xs) \<and> py_round1 fl (completion_rate fl xs) \<le> 100"
  using py_round1_range[OF fl(1,2,4)] completion_rate_range[OF fl, of xs] by blast

lemma day_append_keys: "set (map fst (day_append day b dc)) = insert day (set (map fst dc))"
proof (induction dc)
  case Nil
  then show ?case by simp
next
  case (Cons p dc)
  obtain d bs where p: "p = (d, bs)" by (cases p)
  show ?case using Cons.IH by (cases "d = day") (auto simp: p)
qed

lemma day_completion_loop_keys:
  "set (map fst (day_completion_loop h dc)) = set (map fst dc) \<union> set (map e_day_of_week h)"
proof (induction h arbitrary: dc)
  case Nil
  then show ?case by simp
next
  case (Cons e h)
  have "set (map fst (day_completion_loop (e # h) dc)) =
          set (map fst (day_append (e_day_of_week e) (e_completed e) dc)) \<union> set (map e_day_of_week h)"
    by (simp only: day_completion_loop.simps Cons.IH)
  also have "\<dots> = insert (e_day_of_week e) (set (map fst dc)) \<union> set (map e_day_of_week h)"
    by (simp only: day_append_keys)
  finally show ?case by auto
qed

lemma day_stats_of_keys: "set (map fst (day_stats_of fl dc)) \<subseteq> set (map fst dc)"
proof
  fix d
  assume "d \<in> set (map fst (day_stats_of fl dc))"
  then obtain r where "(d, r) \<in> set (day_stats_of fl dc)" by auto
  then obtain bs where "(d, bs) \<in> set dc" unfolding day_stats_of_def by auto
  then show "d \<in> set (map fst dc)" by force
qed

lemma sorted_days_set: "set (sorted_days items) = set items"
  by (simp add: sorted_days_def)

lemma streak_statistics_days:
  "best_days (streak_statistics fl h) =
     (if day_stats (streak_statistics fl h) \<noteq> []
      then map fst (filter (\<lambda>(day, rate). rate \<ge> 50)
                     (take 2 (sorted_days (day_stats (streak_statistics fl h)))))
      else [])"
  "worst_days (streak_statistics fl h) =
     (if day_stats (streak_statistics fl h) \<noteq> []
      then map fst (filter (\<lambda>(day, rate). rate < 50)
                     (drop (length (sorted_days (day_stats (streak_statistics fl h))) - 2)
                        (sorted_days (day_stats (streak_statistics fl h)))))
      else [])"
  by (simp_all only: streak_statistics_def Let_def streak_stats.simps)

lemma filtered_days_props:
  assumes "set xs \<subseteq> set st" and "length xs \<le> 2"
  shows "length (map fst (filter (\<lambda>(day, rate). P rate) xs)) \<le> 2 \<and>
         (\<forall>d \<in> set (map fst (filter (\<lambda>(day, rate). P rate) xs)). \<exists>r. (d, r) \<in> set st \<and> P r)"
proof
  show "length (map fst (filter (\<lambda>(day, rate). P rate) xs)) \<le> 2"
    by (metis length_map length_filter_le order_trans assms(2))
next
  show "\<forall>d \<in> set (map fst (filter (\<lambda>(day, rate). P rate) xs)). \<exists>r. (d, r) \<in> set st \<and> P r"
  proof
    fix d
    assume "d \<in> set (map fst (filter (\<lambda>(day, rate). P rate) xs))"
    then obtain r where "(d, r) \<in> set xs" "P r" by auto
    with assms(1) show "\<exists>r. (d, r) \<in> set st \<and> P r" by blast
  qed
qed

lemma best_days_props:
  "length (best_days (streak_statistics fl h)) \<le> 2 \<and>
   (\<forall>d \<in> set (best_days (streak_statistics fl h)).
       \<exists>r. (d, r) \<in> set (day_stats (streak_statistics fl h)) \<and> r \<ge> 50)"
proof (cases "day_stats (streak_statistics fl h) = []")
  case True
  then show ?thesis by (simp add: streak_statistics_days(1))
next
  case False
  let ?st = "day_stats (streak_statistics fl h)"
  have mem: "set (take 2 (sorted_days ?st)) \<subseteq> set ?st"
    using set_take_subset[of 2 "sorted_days ?st"] by (simp add: sorted_days_set)
  have len: "length (take 2 (sorted_days ?st)) \<le> 2" by simp
  have eq: "best_days (streak_statistics fl h) =
      map fst (filter (\<lambda>(day, rate). rate \<ge> 50) (take 2 (sorted_days ?st)))"
    using False by (subst streak_statistics_days(1)) simp
  show ?thesis unfolding eq by (rule filtered_days_props[OF mem len, of "\<lambda>r. r \<ge> 50"])
qed

lemma worst_days_props:
  "length (worst_days (streak_statistics fl h)) \<le> 2 \<and>
   (\<forall>d \<in> set (worst_days (streak_statistics fl h)).
       \<exists>r. (d, r) \<in> set (day_stats (streak_statistics fl h)) \<and> r < 50)"
proof (cases "day_stats (streak_statistics fl h) = []")
  case True
  then show ?thesis by (simp add: streak_statistics_days(2))
next
  case False
  let ?st = "day_stats (streak_statistics fl h)"
  let ?srt = "sorted_days ?st"
  have mem: "set (drop (length ?srt - 2) ?srt) \<subseteq> set ?st"
    using set_drop_subset[of "length ?srt - 2" ?srt] by (simp add: sorted_days_set)
  have len: "length (drop (length ?srt - 2) ?srt) \<le> 2" by simp
  have eq: "worst_days (streak_statistics fl h) =
      map fst (filter (\<lambda>(day, rate). rate < 50) (drop (length ?srt - 2) ?srt))"
    using False by (subst streak_statistics_days(2)) simp
  show ?thesis unfolding eq by (rule filtered_days_props[OF mem len, of "\<lambda>r. r < 50"])
qed

lemma day_stats_keys:
  "set (map fst (day_stats (streak_statistics fl h))) \<subseteq> set (map e_day_of_week h)"
  using day_stats_of_keys[of fl "day_completion_loop h []"]
  by (simp only: streak_statistics_fields day_completion_loop_keys) simp

lemma strftime_A_weekday: "strftime_A d \<in> set weekday_names"
proof -
  have "nat ((d + 6) mod 7) < 7" by simp
  moreover have "length weekday_names = 7" by (simp add: weekday_names_def)
  ultimately show ?thesis unfolding strftime_A_def by (metis nth_mem)
qed

lemma completion_history_weekdays:
  "e_day_of_week ` set (completion_history U h files today days_back) \<subseteq> set weekday_names"
proof -
  have "e_day_of_week ` set (collect_history U h files today i n) \<subseteq> set weekday_names" for i n
    by (induction n arbitrary: i) (auto simp: Let_def strftime_A_weekday)
  then show ?thesis by (simp add: completion_history_def)
qed

lemma streak_statistics_invariants:
  assumes "mono fl" and "fl 0 = 0" and "fl 1 = 1" and "fl 100 = 100"
    and "e_day_of_week ` set history \<subseteq> set weekday_names"
  shows "current_streak (streak_statistics fl history) \<le> max_streak (streak_statistics fl history) \<and>
    0 \<le> completion_rate_7d (streak_statistics fl history) \<and>
    completion_rate_7d (streak_statistics fl history) \<le> 100 \<and>
    0 \<le> completion_rate_30d (streak_statistics fl history) \<and>
    completion_rate_30d (streak_statistics fl history) \<le> 100 \<and>
    0 \<le> completion_rate_all (streak_statistics fl history) \<and>
    completion_rate_all (streak_statistics fl history) \<le> 100 \<and>
    length (best_days (streak_statistics fl history)) \<le> 2 \<and>
    length (worst_days (streak_statistics fl history)) \<le> 2 \<and>
    (\<forall>d \<in> set (best_days (streak_statistics fl history)).
        \<exists>r. (d, r) \<in> set (day_stats (streak_statistics fl history)) \<and> r \<ge> 50) \<and>
    (\<forall>d \<in> set (worst_days (streak_statistics fl history)).
        \<exists>r. (d, r) \<in> set (day_stats (streak_statistics fl history)) \<and> r < 50) \<and>
    fst ` set (day_stats (streak_statistics fl history)) \<subseteq> set weekday_names"
proof -
  note fl = assms(1-4)
  have 1: "current_streak (streak_statistics fl history) \<le> max_streak (streak_statistics fl history)"
    by (simp add: streak_statistics_fields current_le_max)
  have 2: "0 \<le> completion_rate_7d (streak_statistics fl history) \<and>
           completion_rate_7d (streak_statistics fl history) \<le> 100"
    unfolding streak_statistics_fields by (rule rounded_rate_range[OF fl])
  have 3: "0 \<le> completion_rate_30d (streak_statistics fl history) \<and>
           completion_rate_30d (streak_statistics fl history) \<le> 100"
    unfolding streak_statistics_fields by (rule rounded_rate_range[OF fl])
  have 4: "0 \<le> completion_rate_all (streak_statistics fl history) \<and>
           completion_rate_all (streak_statistics fl history) \<le> 100"
    unfolding streak_statistics_fields by (rule rounded_rate_range[OF fl])
  have 5: "fst ` set (day_stats (streak_statistics fl history)) \<subseteq> set weekday_names"
    using day_stats_keys[of fl history] assms(5) by auto
  show ?thesis
    using 1 2 3 4 5 best_days_props[of fl history] worst_days_props[of fl history] by blast
qed

lemma calculate_streaks_invariants:
  assumes "mono fl" and "fl 0 = 0" and "fl 1 = 1" and "fl 100 = 100"
  shows "current_streak (calculate_streaks U fl h files today days_back)
           \<le> max_streak (calculate_streaks U fl h files today days_back) \<and>
         fst ` set (day_stats (calculate_streaks U fl h files today days_back))
           \<subseteq> set weekday_names"
  using streak_statistics_invariants[OF assms completion_history_weekdays,
          of U h files today days_back]
  by (simp add: calculate_streaks_def)

text \<open>
  Claim C2. For every history whose entries are labelled with weekday names, as every
  history that \<open>calculate_streaks\<close> collects is (lemma \<open>completion_history_weekdays\<close>), the
  statistics satisfy: \<open>current_streak \<le> max_streak\<close>; the three completion rates lie in
  \<open>[0, 100]\<close>; \<open>best_days\<close> and \<open>worst_days\<close> have at most two entries, \<open>best_days\<close> only
  days of rate at least 50 and \<open>worst_days\<close> only days of rate below 50; every key of
  \<open>day_stats\<close> is one of the seven weekday names. The float rounding \<open>fl\<close> is any monotone
  function that keeps 0, 1 and 100, which the rounding to the nearest binary64 does.
\<close>

theorem streak_stats_invariants:
  assumes "mono fl" and "fl 0 = 0" and "fl 1 = 1" and "fl 100 = 100"
    and "e_day_of_week ` set history \<subseteq> set weekday_names"
  shows "current_streak (streak_statistics fl history) \<le> max_streak (streak_statistics fl history) \<and>
    0 \<le> completion_rate_7d (streak_statistics fl history) \<and>
    completion_rate_7d (streak_statistics fl history) \<le> 100 \<and>
    0 \<le> completion_rate_30d (streak_statistics fl history) \<and>
    completion_rate_30d (streak_statistics fl history) \<le> 100 \<and>
    0 \<le> completion_rate_all (streak_statistics fl history) \<and>
    completion_rate_all (streak_statistics fl history) \<le> 100 \<and>
    length (best_days (streak_statistics fl history)) \<le> 2 \<and>
    length (worst_days (streak_statistics fl history)) \<le> 2 \<and>
    (\<forall>d \<in> set (best_days (streak_statistics fl history)).
        \<exists>r. (d, r) \<in> set (day_stats (streak_statistics fl history)) \<and> r \<ge> 50) \<and>
    (\<forall>d \<in> set (worst_days (streak_statistics fl history)).
        \<exists>r. (d, r) \<in> set (day_stats (streak_statistics fl history)) \<and> r < 50) \<and>
    fst ` set (day_stats (streak_statistics fl history)) \<subseteq> set weekday_names"
  using assms by (rule streak_statistics_invariants)

theorem streak_stats_invariants_witness:
  "mono (\<lambda>x::real. x) \<and>
   e_day_of_week ` set ten_day_history \<subseteq> set weekday_names \<and>
   current_streak (streak_statistics (\<lambda>x. x) ten_day_history)
     \<le> max_streak (streak_statistics (\<lambda>x. x) ten_day_history) \<and>
   0 \<le> completion_rate_7d (streak_statistics (\<lambda>x. x) ten_day_history) \<and>
   completion_rate_7d (streak_statistics (\<lambda>x. x) ten_day_history) \<le> 100 \<and>
   length (best_days (streak_statistics (\<lambda>x. x) ten_day_history)) \<le> 2 \<and>
   length (worst_days (streak_statistics (\<lambda>x. x) ten_day_history)) \<le> 2 \<and>
   fst ` set (day_stats (streak_statistics (\<lambda>x. x) ten_day_history)) \<subseteq> set weekday_names"
proof -
  have m: "mono (\<lambda>x::real. x)" by (simp add: mono_def)
  have w: "e_day_of_week ` set ten_day_history \<subseteq> set weekday_names"
    by (auto simp: ten_day_history_def strftime_A_weekday)
  from streak_stats_invariants[of "\<lambda>x. x" ten_day_history, OF m _ _ _ w]
  show ?thesis using m w by simp
qed

text \<open>
  Claim C3, as amended. On the ten-day history whose days 1 to 7 are completed and whose
  days 8 to 10 are not, \<open>current_streak\<close> is 0 and \<open>max_streak\<close> is 7; the trailing seven
  days are the days 4 to 10, of which four (4 to 7) are completed, so that
  \<open>completion_rate_7d\<close> is \<open>round(4/7*100, 1)\<close>, whatever the float rounding \<open>fl\<close>.
\<close>

theorem ten_day_history_stats:
  "current_streak (streak_statistics fl ten_day_history) = 0 \<and>
   max_streak (streak_statistics fl ten_day_history) = 7 \<and>
   map e_date (last_days 7 ten_day_history) =
     [738994, 738995, 738996, 738997, 738998, 738999, 739000] \<and>
   completion_rate_7d (streak_statistics fl ten_day_history) =
     py_round1 fl (fl (fl (4 / 7) * 100))"
  using ten_day_rate[of fl]
  by (simp add: streak_statistics_fields ten_day_history_unfold last_days_def)

text \<open>
  Claim C3 as stated gives \<open>round(3/7*100, 1)\<close> for the rate. In exact arithmetic the rate
  is 57.1 and the stated value 42.9, and no rounding \<open>fl\<close> of relative error up to
  \<open>1/1000\<close> makes the two equal.
\<close>

theorem ten_day_history_rate_counterexample:
  "completion_rate_7d (streak_statistics (\<lambda>x. x) ten_day_history) = 571 / 10 \<and>
   py_round1 (\<lambda>x. x) (3 / 7 * 100) = 429 / 10 \<and>
   \<not> (\<exists>fl. (\<forall>x. \<bar>fl x - x\<bar> \<le> \<bar>x\<bar> / 1000) \<and>
          completion_rate_7d (streak_statistics fl ten_day_history) =
            py_round1 fl (fl (fl (3 / 7) * 100)))"
proof (intro conjI notI)
  show "completion_rate_7d (streak_statistics (\<lambda>x. x) ten_day_history) = 571 / 10"
    by (simp add: ten_day_rate py_round1_def round_half_even_def)
  show "py_round1 (\<lambda>x. x) (3 / 7 * 100) = 429 / 10"
    by (simp add: py_round1_def round_half_even_def)
next
  assume "\<exists>fl. (\<forall>x. \<bar>fl x - x\<bar> \<le> \<bar>x\<bar> / 1000) \<and>
          completion_rate_7d (streak_statistics fl ten_day_history) =
            py_round1 fl (fl (fl (3 / 7) * 100))"
  then obtain fl where acc: "\<forall>x. \<bar>fl x - x\<bar> \<le> \<bar>x\<bar> / 1000"
    and eq: "py_round1 fl (fl (fl (4 / 7) * 100)) = py_round1 fl (fl (fl (3 / 7) * 100))"
    by (auto simp: ten_day_rate)
  from float_percent_bounds[OF acc, of "4 / 7"]
  have b4: "57 \<le> fl (fl (4 / 7) * 100)" "fl (fl (4 / 7) * 100) \<le> 58" by simp_all
  from float_percent_bounds[OF acc, of "3 / 7"]
  have b3: "42 \<le> fl (fl (3 / 7) * 100)" "fl (fl (3 / 7) * 100) \<le> 43" by simp_all
  from py_round1_bounds[OF acc _ b4, of ] have "56 \<le> py_round1 fl (fl (fl (4 / 7) * 100))"
    by simp
  moreover from py_round1_bounds[OF acc _ b3] have "py_round1 fl (fl (fl (3 / 7) * 100)) \<le> 44"
    by simp
  ultimately show False using eq by simp
qed
section \<open>Checklist blocks\<close>

lemma operations_done_without_header:
  assumes "\<not> py_in operations_header content" and "parse_text U content = Inr r"
  shows "operations_done r = []"
  using assms by (simp add: parse_text_InrD(1) done_items_without_header)

lemma parse_text_without_labels:
  assumes "\<not> py_in rating_label content" and "\<not> py_in operations_percent_label content"
    and "\<not> py_in tactics_percent_label content"
  shows "\<exists>r. parse_text U content = Inr r \<and>
             operations_done r = done_items True operations_header content \<and>
             operations_percent r = None"
  by (rule parse_text_InrI) (simp_all add: int_field_without_label assms)

text \<open>
  Claim C4 holds for a missing header (lemma \<open>operations_done_without_header\<close>) and fails
  for the upper-case mark: the block pattern \<open>- \[[ x]\] \<close> and the guard of the operations
  loop admit the lower-case \<open>x\<close> only, although the test \<open>'[X]' in line\<close> and the pattern
  \<open>- \[[xX]\]\s*\<close> of the same loop are written for both cases. The parse of a block
  whose only item is \<open>- [X] run\<close> returns a record without entries; in a block with
  \<open>- [x] run\<close>, \<open>- [ ] walk\<close>, \<open>- [X] swim\<close> the item \<open>swim\<close> is lost; the body of the
  loop itself, when a line \<open>- [X] swim\<close> reaches it, returns \<open>swim\<close>.
\<close>

theorem uppercase_mark_not_extracted:
  "(\<exists>r. parse_reflection_file U (Text example_upper_day) = Inr r \<and> operations_done r = []) \<and>
   (\<exists>r. parse_reflection_file U (Text example_mixed_day) = Inr r \<and>
        operations_done r = [asc ''run'']) \<and>
   done_loop False [asc ''- [X] swim''] [] = [asc ''swim'']"
proof -
  have u: "done_items True operations_header example_upper_day = []"
    by (simp add: checklist_eval example_upper_day_def)
  have m: "done_items True operations_header example_mixed_day = [asc ''run'']"
    by (simp add: checklist_eval example_mixed_day_def)
  have "\<exists>r. parse_text U example_upper_day = Inr r \<and>
             operations_done r = done_items True operations_header example_upper_day \<and>
             operations_percent r = None"
    by (rule parse_text_without_labels) (simp_all add: example_upper_day_def label_eval)
  moreover have "\<exists>r. parse_text U example_mixed_day = Inr r \<and>
             operations_done r = done_items True operations_header example_mixed_day \<and>
             operations_percent r = None"
    by (rule parse_text_without_labels) (simp_all add: example_mixed_day_def label_eval)
  moreover have "done_loop False [asc ''- [X] swim''] [] = [asc ''swim'']"
    by (simp add: checklist_eval)
  ultimately show ?thesis using u m by auto
qed


section \<open>Validation: the exit code\<close>

text \<open>
  Claim C6. When \<open>validate_all\<close> ends without an exception, its exit code is 1 if the
  report holds a CRITICAL issue and 0 if it holds none, whatever WARNING and RECOMMENDATION
  issues it holds; \<open>main\<close> exits with that code.
\<close>

theorem exit_code_iff_critical:
  assumes "validate_all U p fix = Inr (exit_code, report)"
  shows "(exit_code \<noteq> 0 \<longleftrightarrow> critical report \<noteq> []) \<and>
         (exit_code = 1 \<longleftrightarrow> critical report \<noteq> []) \<and>
         (exit_code = 0 \<longleftrightarrow> critical report = []) \<and>
         validate_main U p fix = exit_code"
proof -
  from assms have "(exit_code = 1 \<and> has_critical report) \<or> (exit_code = 0 \<and> \<not> has_critical report)"
    by (auto simp: validate_all_def Let_def split: sum.splits prod.splits if_splits)
  then have "(exit_code = 1 \<and> critical report \<noteq> []) \<or> (exit_code = 0 \<and> critical report = [])"
    by (simp add: has_critical_def)
  moreover have "validate_main U p fix = exit_code"
    using assms by (simp add: validate_main_def)
  ultimately show ?thesis by auto
qed

lemma example_project_run:
  "validate_all basic_ucd example_project False =
     Inr (0, \<lparr>critical = [],
              warning = [\<lparr>i_message = reflection_read_error_message (asc ''denied''),
                          i_file = Some [asc ''2025'', asc ''01'', asc ''2025-01-05'' @ asc ''.md''],
                          i_fix = None\<rparr>],
              recommendation = []\<rparr>)"
  by (simp add: validate_all_def example_project_def validate_reflections_structure_def
        empty_report_def has_critical_def entry_path_def)

lemma example_project_no_goals_run:
  "validate_all basic_ucd example_project_no_goals False =
     Inr (1, \<lparr>critical = [\<lparr>i_message = no_goals_message (asc ''goals''), i_file = None, i_fix = None\<rparr>],
              warning = [\<lparr>i_message = reflection_read_error_message (asc ''denied''),
                          i_file = Some [asc ''2025'', asc ''01'', asc ''2025-01-05'' @ asc ''.md''],
                          i_fix = None\<rparr>],
              recommendation = []\<rparr>)"
  by (simp add: validate_all_def example_project_def example_project_no_goals_def
        validate_reflections_structure_def empty_report_def has_critical_def entry_path_def)

theorem exit_code_iff_critical_witness:
  "validate_all basic_ucd example_project False =
     Inr (0, \<lparr>critical = [],
              warning = [\<lparr>i_message = reflection_read_error_message (asc ''denied''),
                          i_file = Some [asc ''2025'', asc ''01'', asc ''2025-01-05'' @ asc ''.md''],
                          i_fix = None\<rparr>],
              recommendation = []\<rparr>) \<and>
   validate_main basic_ucd example_project False = 0 \<and>
   validate_main basic_ucd example_project_no_goals False = 1"
  using exit_code_iff_critical[OF example_project_run]
    exit_code_iff_critical[OF example_project_no_goals_run] example_project_run
  by simp
section \<open>Validation: percentages above 100\<close>

lemma add_issue_fields:
  "critical (add_issue WARNING msg f x r) = critical r"
  "warning (add_issue WARNING msg f x r) = warning r @ [\<lparr>i_message = msg, i_file = f, i_fix = x\<rparr>]"
  "critical (add_issue CRITICAL msg f x r) = critical r @ [\<lparr>i_message = msg, i_file = f, i_fix = x\<rparr>]"
  "warning (add_issue CRITICAL msg f x r) = warning r"
  by simp_all



lemma percent_loop_long:
  "length percent > max_str_digits \<Longrightarrow>
   percent_loop U p (percent # rest) r = Inl (int_limit_message (length percent), r)"
  by (simp add: py_int_def)











subsection \<open>A percentage of more than 4300 digits\<close>









end
